theory Spec2Isabelle
  imports Main "HOL-Library.Sublist" "HOL-Library.Char_ord" "HOL-Library.List_Lexorder"
    "HOL-Library.Product_Lexorder"
begin

section \<open>pytest-vts: the cassette recorder (\<open>pytest_vts/vts/__init__.py\<close>)\<close>

text \<open>
  The class \<open>Recorder\<close> intercepts the HTTP requests of a test. With no cassette file it
  performs each request for real and records the exchange (a track); with a cassette
  file it answers the requests from the stored tracks. The embedding passes the state of
  the recorder and of the outside world explicitly, and returns every exception of the
  source as a value.
\<close>

subsection \<open>Python values\<close>

text \<open>
  The cassette is a Python value built from lists, dicts, strings, integers and
  \<open>None\<close>: what \<open>json.dumps\<close> accepts and \<open>json.loads\<close> returns. A dict is the
  list of its items in the order in which it is iterated; its keys are distinct in
  Python. That order is not part of the value of a dict: two dicts are equal in Python
  when they have the same keys with equal values (\<open>json_eq\<close> below), and a dict
  written by \<open>json.dumps\<close> and read back by \<open>json.loads\<close> may come back in
  another order. Floats are left out.
\<close>

datatype json =
    JNull
  | JBool bool
  | JInt int
  | JStr string
  | JArr "json list"
  | JObj "(string \<times> json) list"

text \<open>The exceptions of the source, and the ones of the libraries it calls.\<close>

datatype error =
    ValueError
  | KeyError
  | TypeError
  | AttributeError
  | IOError
  | ConnectionError
  | Timeout
  | OtherError string

type_synonym 'a result = "error + 'a"

text \<open>\<open>obj[key]\<close> for a string key: only a dict can be indexed by a string.\<close>

fun getitem :: "json \<Rightarrow> string \<Rightarrow> json result" where
  "getitem (JObj kvs) k = (case map_of kvs k of None \<Rightarrow> Inl KeyError | Some v \<Rightarrow> Inr v)"
| "getitem _ k = Inl TypeError"

text \<open>
  \<open>for track in obj\<close>: a list gives its elements, a dict its keys, a string its
  characters; nothing else can be iterated.
\<close>

fun py_iter :: "json \<Rightarrow> json list result" where
  "py_iter (JArr xs) = Inr xs"
| "py_iter (JObj kvs) = Inr (map (\<lambda>kv. JStr (fst kv)) kvs)"
| "py_iter (JStr s) = Inr (map (\<lambda>c. JStr [c]) s)"
| "py_iter _ = Inl TypeError"

subsection \<open>Requests, responses and headers\<close>

text \<open>The prepared request handed to a callback (\<open>requests.PreparedRequest\<close>).\<close>

record request =
  req_method :: string
  req_url :: string
  req_path_url :: string
  req_headers :: "(string \<times> string) list"
  req_body :: "string option"

text \<open>
  The response of the real call (\<open>requests.Response\<close>): its headers are a
  case-insensitive dict, kept here as the list of its items.
\<close>

record response =
  resp_status_code :: int
  resp_headers :: "(string \<times> string) list"
  resp_text :: string

definition lower_char :: "char \<Rightarrow> char" where
  "lower_char c =
     (let n = (of_char c :: nat) in if 65 \<le> n \<and> n \<le> 90 then char_of (n + 32) else c)"

definition lower :: "string \<Rightarrow> string" where
  "lower s = map lower_char s"

text \<open>\<open>headers.get(key, default)\<close> and \<open>del headers[key]\<close> compare lowercased keys.\<close>

fun ci_get :: "(string \<times> string) list \<Rightarrow> string \<Rightarrow> string \<Rightarrow> string" where
  "ci_get [] k d = d"
| "ci_get ((k', v) # hs) k d = (if lower k' = lower k then v else ci_get hs k d)"

definition ci_del :: "(string \<times> string) list \<Rightarrow> string \<Rightarrow> (string \<times> string) list" where
  "ci_del hs k = filter (\<lambda>kv. lower (fst kv) \<noteq> lower k) hs"

text \<open>\<open>dict(headers.items())\<close>: the headers as a plain dict of strings.\<close>

definition headers_dict :: "(string \<times> string) list \<Rightarrow> json" where
  "headers_dict hs = JObj (map (\<lambda>kv. (fst kv, JStr (snd kv))) hs)"

text \<open>\<open>needle in haystack\<close> on strings.\<close>

fun contains :: "string \<Rightarrow> string \<Rightarrow> bool" where
  "contains needle [] = (needle = [])"
| "contains needle (c # cs) = (prefix needle (c # cs) \<or> contains needle cs)"

subsection \<open>The outside world\<close>

text \<open>
  What the recorder consumes from outside: the \<open>json\<close> module (\<open>json_loads\<close> gives
  \<open>None\<close> where \<open>json.loads\<close> raises \<open>ValueError\<close>), the real HTTP client
  (\<open>requests.Session().send\<close>), whose answer may depend on the calls made before, and
  the comparison the interception layer makes between the URL of a stand-in registered
  with \<open>match_querystring\<close> and the URL of a request (in \<open>responses\<close> the two URLs
  are parsed, and they match when scheme, host and path agree and the sorted query
  parameters are the same). They are parameters of the model: a theorem holds for every
  such library and network.
\<close>

record ext =
  json_dumps :: "json \<Rightarrow> string"
  json_loads :: "string \<Rightarrow> json option"
  send :: "request list \<Rightarrow> request \<Rightarrow> response result"
  strict_url_match :: "string \<Rightarrow> string \<Rightarrow> bool"

text \<open>
  The world keeps the files by path, the paths written so far, and the requests that
  reached the real HTTP client.
\<close>

record world =
  files :: "string \<rightharpoonup> string"
  writes :: "string list"
  http_calls :: "request list"

subsection \<open>The regular expression of the recording stand-in\<close>

text \<open>
  The fragment of Python's \<open>re\<close> that \<open>re.compile("http.*")\<close> needs: literal
  characters, the dot (any character but a newline) and the postfix star. \<open>re_match\<close> is
  \<open>pattern.match(s)\<close>: the pattern has to match at the start of \<open>s\<close>, not all of it.
\<close>

datatype atom = Lit char | Dot

datatype rx = One atom | Star atom

definition atom_of :: "char \<Rightarrow> atom" where
  "atom_of c = (if c = CHR ''.'' then Dot else Lit c)"

fun re_compile :: "string \<Rightarrow> rx list" where
  "re_compile [] = []"
| "re_compile [c] = [One (atom_of c)]"
| "re_compile (c # d # cs) =
     (if d = CHR ''*'' then Star (atom_of c) # re_compile cs
      else One (atom_of c) # re_compile (d # cs))"

fun atom_ok :: "atom \<Rightarrow> char \<Rightarrow> bool" where
  "atom_ok (Lit a) c = (a = c)"
| "atom_ok Dot c = (c \<noteq> CHR 0x0A)"

fun re_match :: "rx list \<Rightarrow> string \<Rightarrow> bool" where
  "re_match [] s = True"
| "re_match (One a # r) [] = False"
| "re_match (One a # r) (c # s) = (atom_ok a c \<and> re_match r s)"
| "re_match (Star a # r) [] = re_match r []"
| "re_match (Star a # r) (c # s) =
     (re_match r (c # s) \<or> (atom_ok a c \<and> re_match (Star a # r) s))"

subsection \<open>The interception layer (\<open>responses.RequestsMock\<close>)\<close>

text \<open>
  The library keeps the registered stand-ins in registration order and answers a request
  with the first one whose method and URL match. A callback of the source is one of two
  closures: the one \<open>Recorder.record\<close> returns, and the one \<open>Recorder.play\<close> returns,
  which holds the stored response of its track.
\<close>

datatype callback = RecordCb | PlayCb json

datatype url_pattern = Pattern "rx list" | Plain json

record stub =
  stub_method :: json
  stub_url :: url_pattern
  match_querystring :: bool
  callback :: callback

record requests_mock =
  started :: bool
  stubs :: "stub list"

definition start :: "requests_mock \<Rightarrow> requests_mock" where
  "start m = m\<lparr>started := True\<rparr>"

definition stop :: "requests_mock \<Rightarrow> requests_mock" where
  "stop m = m\<lparr>started := False\<rparr>"

definition reset :: "requests_mock \<Rightarrow> requests_mock" where
  "reset m = m\<lparr>stubs := []\<rparr>"

definition add_callback ::
  "json \<Rightarrow> url_pattern \<Rightarrow> bool \<Rightarrow> callback \<Rightarrow> requests_mock \<Rightarrow> requests_mock" where
  "add_callback m u mq cb rm =
     rm\<lparr>stubs := stubs rm @
       [\<lparr>stub_method = m, stub_url = u, match_querystring = mq, callback = cb\<rparr>]\<rparr>"

text \<open>\<open>url.split('?', 1)[0]\<close>\<close>

definition without_qs :: "string \<Rightarrow> string" where
  "without_qs u = takeWhile (\<lambda>c. c \<noteq> CHR ''?'') u"

text \<open>
  A pattern is matched at the start of the request's URL. A string registered with
  \<open>match_querystring\<close> is compared with the request's URL by the comparison of the
  library, which is not string equality: it does not see the order of the query
  parameters. A string registered without it is compared without the query strings. A
  URL that is neither never matches. The source registers a pattern without
  \<open>match_querystring\<close> (recording) and strings with it (playback), nothing else.
\<close>

definition has_url_match :: "ext \<Rightarrow> stub \<Rightarrow> string \<Rightarrow> bool" where
  "has_url_match x s request_url =
     (let u = (if match_querystring s then request_url else without_qs request_url) in
      case stub_url s of
        Pattern p \<Rightarrow> re_match p u
      | Plain (JStr v) \<Rightarrow>
          (if match_querystring s then strict_url_match x v u else without_qs v = u)
      | Plain _ \<Rightarrow> False)"

fun find_match :: "ext \<Rightarrow> stub list \<Rightarrow> request \<Rightarrow> stub option" where
  "find_match x [] q = None"
| "find_match x (s # ss) q =
     (if stub_method s \<noteq> JStr (req_method q) then find_match x ss q
      else if \<not> has_url_match x s (req_url q) then find_match x ss q
      else Some s)"

subsection \<open>The recorder\<close>

text \<open>
  The methods keep their names, without the leading underscore of the private ones.
  \<open>record\<close> and \<open>setup\<close> are commands of Isabelle: the callback that
  \<open>Recorder.record\<close> returns is \<open>record_callback\<close>, and \<open>Recorder.setup\<close> is
  \<open>Recorder_setup\<close>.
\<close>

record recorder =
  cassette :: json
  has_recorded :: bool
  basedir :: string
  cassette_name :: string
  responses :: requests_mock

text \<open>What \<open>__init__\<close> reads from the pytest request.\<close>

record pytest_req =
  fspath_dirpath :: string
  node_name :: string

text \<open>\<open>a or b\<close> on an optional string: \<open>None\<close> and the empty string are false.\<close>

definition py_or :: "string option \<Rightarrow> string \<Rightarrow> string" where
  "py_or a b = (case a of None \<Rightarrow> b | Some s \<Rightarrow> if s = [] then b else s)"

definition Recorder_init :: "pytest_req \<Rightarrow> string option \<Rightarrow> string option \<Rightarrow> recorder" where
  "Recorder_init pytst_req basedir_arg cassette_name_arg =
     \<lparr>cassette = JArr [],
      has_recorded = False,
      basedir = py_or basedir_arg (fspath_dirpath pytst_req),
      cassette_name = py_or cassette_name_arg (node_name pytst_req),
      responses = \<lparr>started = False, stubs = []\<rparr>\<rparr>"

definition cass_dir :: "recorder \<Rightarrow> string" where
  "cass_dir r = basedir r @ ''/cassettes''"

text \<open>\<open>os.path.sep\<close> is the slash.\<close>

definition test_name :: "recorder \<Rightarrow> string" where
  "test_name r =
     map (\<lambda>c. if c = CHR ''/'' then CHR ''_'' else c) (cassette_name r) @ ''.cassette''"

definition cass_file :: "recorder \<Rightarrow> string" where
  "cass_file r = cass_dir r @ ''/'' @ test_name r"

definition has_cassette :: "world \<Rightarrow> recorder \<Rightarrow> bool" where
  "has_cassette w r = (files w (cass_file r) \<noteq> None)"

text \<open>\<open>re.compile("http.*")\<close>\<close>

definition all_re :: "rx list" where
  "all_re = re_compile ''http.*''"

definition setup_recording :: "recorder \<Rightarrow> recorder" where
  "setup_recording r =
     r\<lparr>responses :=
         add_callback (JStr ''GET'') (Pattern all_re) False RecordCb (reset (responses r))\<rparr>"

text \<open>
  The callback \<open>play(response)\<close> returns: the request is not looked at. The tuple is
  built left to right, so a missing key raises before \<open>json.dumps\<close> runs.
\<close>

definition play :: "ext \<Rightarrow> json \<Rightarrow> request \<Rightarrow> (json \<times> json \<times> string) result" where
  "play x resp http_req =
     (case getitem resp ''status_code'' of
        Inl e \<Rightarrow> Inl e
      | Inr sc \<Rightarrow>
          (case getitem resp ''headers'' of
             Inl e \<Rightarrow> Inl e
           | Inr hs \<Rightarrow>
               (case getitem resp ''body'' of
                  Inl e \<Rightarrow> Inl e
                | Inr b \<Rightarrow> Inr (sc, hs, json_dumps x b))))"

text \<open>
  The loop of \<open>rewind_cassette\<close> over the tracks: a track of the wrong shape raises, and
  the stand-ins registered before it stay registered.
\<close>

fun rewind_tracks :: "json list \<Rightarrow> recorder \<Rightarrow> error option \<times> recorder" where
  "rewind_tracks [] r = (None, r)"
| "rewind_tracks (track # tracks) r =
     (case getitem track ''request'' of
        Inl e \<Rightarrow> (Some e, r)
      | Inr req \<Rightarrow>
          (case getitem req ''method'' of
             Inl e \<Rightarrow> (Some e, r)
           | Inr m \<Rightarrow>
               (case getitem req ''url'' of
                  Inl e \<Rightarrow> (Some e, r)
                | Inr u \<Rightarrow>
                    (case getitem track ''response'' of
                       Inl e \<Rightarrow> (Some e, r)
                     | Inr resp \<Rightarrow>
                         rewind_tracks tracks
                           (r\<lparr>responses :=
                               add_callback m (Plain u) True (PlayCb resp) (responses r)\<rparr>)))))"

definition rewind_cassette :: "recorder \<Rightarrow> error option \<times> recorder" where
  "rewind_cassette r =
     (case py_iter (cassette r) of
        Inl e \<Rightarrow> (Some e, r)
      | Inr tracks \<Rightarrow> rewind_tracks tracks r)"

definition insert_cassette :: "ext \<Rightarrow> world \<Rightarrow> recorder \<Rightarrow> error option \<times> recorder" where
  "insert_cassette x w r =
     (if \<not> has_recorded r then
        (case files w (cass_file r) of
           None \<Rightarrow> (Some IOError, r)
         | Some data \<Rightarrow>
             (case json_loads x data of
                None \<Rightarrow> (Some ValueError, r)
              | Some c \<Rightarrow> (None, r\<lparr>cassette := c\<rparr>)))
      else (None, r))"

definition setup_playback :: "ext \<Rightarrow> world \<Rightarrow> recorder \<Rightarrow> error option \<times> recorder" where
  "setup_playback x w r =
     (case insert_cassette x w r of
        (Some e, r1) \<Rightarrow> (Some e, r1)
      | (None, r1) \<Rightarrow> rewind_cassette (r1\<lparr>responses := reset (responses r1)\<rparr>))"

definition Recorder_setup :: "ext \<Rightarrow> world \<Rightarrow> recorder \<Rightarrow> error option \<times> recorder" where
  "Recorder_setup x w r =
     (let r1 = r\<lparr>responses := start (responses r)\<rparr> in
      if \<not> has_cassette w r1 then (None, setup_recording r1)
      else setup_playback x w r1)"

text \<open>\<open>write(..., ensure=True)\<close> creates the directory and the file.\<close>

definition teardown :: "ext \<Rightarrow> world \<Rightarrow> recorder \<Rightarrow> world \<times> recorder" where
  "teardown x w r =
     (let r1 = r\<lparr>responses := reset (stop (responses r))\<rparr> in
      if has_recorded r1 then
        (w\<lparr>files := (files w)(cass_file r1 \<mapsto> json_dumps x (cassette r1)),
           writes := writes w @ [cass_file r1]\<rparr>, r1)
      else (w, r1))"

text \<open>
  The callback \<open>record()\<close> returns. Interception is stopped, the real call is made, and
  the \<open>finally\<close> clause starts interception again on every path. \<open>resp.json()\<close> parses
  the text of the response; \<open>cassette.append\<close> needs a list.
\<close>

definition track_request :: "request \<Rightarrow> json" where
  "track_request q =
     JObj [(''method'', JStr (req_method q)),
           (''url'', JStr (req_url q)),
           (''path'', JStr (req_path_url q)),
           (''headers'', headers_dict (req_headers q)),
           (''body'', (case req_body q of None \<Rightarrow> JNull | Some b \<Rightarrow> JStr b))]"

definition strip_encoding :: "(string \<times> string) list \<Rightarrow> (string \<times> string) list" where
  "strip_encoding hs =
     (let content_encoding = ci_get hs ''Content-Encoding'' [] in
      if contains ''gzip'' content_encoding then ci_del hs ''Content-Encoding'' else hs)"

text \<open>
  \<open>body\<close> is what the track stores and \<open>bodys\<close> what the caller gets: the parsed value
  and its serialisation when the text is JSON, the text itself twice otherwise.
\<close>

definition decoded_body :: "ext \<Rightarrow> response \<Rightarrow> json \<times> string" where
  "decoded_body x resp =
     (case json_loads x (resp_text resp) of
        Some b \<Rightarrow> (b, json_dumps x b)
      | None \<Rightarrow> (JStr (resp_text resp), resp_text resp))"

definition track_response :: "ext \<Rightarrow> response \<Rightarrow> json" where
  "track_response x resp =
     JObj [(''status_code'', JInt (resp_status_code resp)),
           (''headers'', headers_dict (strip_encoding (resp_headers resp))),
           (''body'', fst (decoded_body x resp))]"

definition record_callback ::
  "ext \<Rightarrow> world \<Rightarrow> recorder \<Rightarrow> request \<Rightarrow> (json \<times> json \<times> string) result \<times> world \<times> recorder" where
  "record_callback x w r http_prep_req =
     (let r1 = r\<lparr>responses := stop (responses r)\<rparr>;
          w1 = w\<lparr>http_calls := http_calls w @ [http_prep_req]\<rparr>
      in case send x (http_calls w) http_prep_req of
           Inl e \<Rightarrow> (Inl e, w1, r1\<lparr>responses := start (responses r1)\<rparr>)
         | Inr resp \<Rightarrow>
             (let track =
                    JObj [(''request'', track_request http_prep_req),
                          (''response'', track_response x resp)]
              in case cassette r1 of
                   JArr tracks \<Rightarrow>
                     (Inr (JInt (resp_status_code resp),
                           headers_dict (strip_encoding (resp_headers resp)),
                           snd (decoded_body x resp)),
                      w1,
                      r1\<lparr>cassette := JArr (tracks @ [track]), has_recorded := True,
                         responses := start (responses r1)\<rparr>)
                 | _ \<Rightarrow> (Inl AttributeError, w1, r1\<lparr>responses := start (responses r1)\<rparr>)))"

subsection \<open>A request of the test\<close>

text \<open>
  What happens to a request the test makes: with interception stopped it reaches the real
  HTTP client; with interception started the first matching stand-in answers it, and the
  interception layer raises \<open>ConnectionError\<close> when none matches.
\<close>

definition dispatch ::
  "ext \<Rightarrow> world \<Rightarrow> recorder \<Rightarrow> request \<Rightarrow> (json \<times> json \<times> string) result \<times> world \<times> recorder" where
  "dispatch x w r q =
     (if \<not> started (responses r) then
        ((case send x (http_calls w) q of
            Inl e \<Rightarrow> Inl e
          | Inr resp \<Rightarrow>
              Inr (JInt (resp_status_code resp), headers_dict (resp_headers resp),
                   resp_text resp)),
         w\<lparr>http_calls := http_calls w @ [q]\<rparr>, r)
      else
        (case find_match x (stubs (responses r)) q of
           None \<Rightarrow> (Inl ConnectionError, w, r)
         | Some s \<Rightarrow>
             (case callback s of
                RecordCb \<Rightarrow> record_callback x w r q
              | PlayCb resp \<Rightarrow> (play x resp q, w, r))))"

text \<open>The requests of a test body, one after the other.\<close>

fun run ::
  "ext \<Rightarrow> world \<Rightarrow> recorder \<Rightarrow> request list \<Rightarrow>
     (json \<times> json \<times> string) result list \<times> world \<times> recorder" where
  "run x w r [] = ([], w, r)"
| "run x w r (q # qs) =
     (case dispatch x w r q of
        (out, w1, r1) \<Rightarrow>
          (case run x w1 r1 qs of (outs, w2, r2) \<Rightarrow> (out # outs, w2, r2)))"

subsection \<open>Names for the parts of a session\<close>

text \<open>The one stand-in \<open>setup_recording\<close> registers.\<close>

definition record_stub :: stub where
  "record_stub =
     \<lparr>stub_method = JStr ''GET'', stub_url = Pattern all_re, match_querystring = False,
      callback = RecordCb\<rparr>"

text \<open>
  The stand-in \<open>rewind_cassette\<close> registers for a track that holds the method and the
  URL of a request and a stored response; and the stored response of a track.
\<close>

definition play_stub :: "request \<Rightarrow> json \<Rightarrow> stub" where
  "play_stub q resp =
     \<lparr>stub_method = JStr (req_method q), stub_url = Plain (JStr (req_url q)),
      match_querystring = True, callback = PlayCb resp\<rparr>"

definition stored_response :: "json \<Rightarrow> json" where
  "stored_response track = (case getitem track ''response'' of Inl e \<Rightarrow> JNull | Inr resp \<Rightarrow> resp)"

definition is_play :: "stub \<Rightarrow> bool" where
  "is_play s = (case callback s of PlayCb resp \<Rightarrow> True | RecordCb \<Rightarrow> False)"

text \<open>The track \<open>record_callback\<close> appends, and the tuple it returns to the caller.\<close>

definition track_of :: "ext \<Rightarrow> request \<times> response \<Rightarrow> json" where
  "track_of x qr =
     JObj [(''request'', track_request (fst qr)), (''response'', track_response x (snd qr))]"

definition reply_of :: "ext \<Rightarrow> response \<Rightarrow> json \<times> json \<times> string" where
  "reply_of x resp =
     (JInt (resp_status_code resp), headers_dict (strip_encoding (resp_headers resp)),
      snd (decoded_body x resp))"

text \<open>A GET request for an http or https URL.\<close>

definition is_get :: "request \<Rightarrow> bool" where
  "is_get q = (req_method q = ''GET'' \<and> prefix ''http'' (req_url q))"

text \<open>
  Equality of Python values: lists are equal item by item, dicts when they have the same
  keys with equal values, in whatever order they are iterated.
\<close>

fun json_eq :: "json \<Rightarrow> json \<Rightarrow> bool" where
  "json_eq (JArr xs) (JArr ys) = list_all2 json_eq xs ys"
| "json_eq (JObj kvs) (JObj kvs') =
     (distinct (map fst kvs) \<and> distinct (map fst kvs') \<and> length kvs = length kvs' \<and>
      (\<forall>kv\<in>set kvs.
         case map_of kvs' (fst kv) of None \<Rightarrow> False | Some v' \<Rightarrow> json_eq (snd kv) v'))"
| "json_eq a b = (a = b)"

text \<open>The \<open>json\<close> module parses what it printed for a value, and gets an equal value.\<close>

definition parses_back :: "ext \<Rightarrow> json \<Rightarrow> bool" where
  "parses_back x v =
     (case json_loads x (json_dumps x v) of None \<Rightarrow> False | Some v' \<Rightarrow> json_eq v v')"

text \<open>The same, for the stored response body of every track of a cassette.\<close>

definition bodies_parse_back :: "ext \<Rightarrow> json \<Rightarrow> bool" where
  "bodies_parse_back x c =
     (case py_iter c of
        Inl e \<Rightarrow> False
      | Inr tracks \<Rightarrow>
          list_all
            (\<lambda>track. case getitem (stored_response track) ''body'' of
                        Inl e \<Rightarrow> False
                      | Inr b \<Rightarrow> parses_back x b)
            tracks)"

text \<open>
  Two replies are the same up to the serialisation of the body: the same status code,
  equal headers, and body strings that parse to equal values.
\<close>

fun reply_eq ::
  "ext \<Rightarrow> (json \<times> json \<times> string) result \<Rightarrow> (json \<times> json \<times> string) result \<Rightarrow> bool" where
  "reply_eq x (Inr (sc, hs, bs)) (Inr (sc', hs', bs')) =
     (sc = sc' \<and> json_eq hs hs' \<and>
      (case json_loads x bs of
         None \<Rightarrow> False
       | Some v \<Rightarrow> (case json_loads x bs' of None \<Rightarrow> False | Some v' \<Rightarrow> json_eq v v')))"
| "reply_eq x a b = False"

text \<open>
  The answers of the real HTTP client to a sequence of requests, each one made after the
  ones before it; and an answer that is a response whose text is JSON, of a value the
  \<open>json\<close> module parses back.
\<close>

fun net_answers :: "ext \<Rightarrow> request list \<Rightarrow> request list \<Rightarrow> response result list" where
  "net_answers x h [] = []"
| "net_answers x h (q # qs) = send x h q # net_answers x (h @ [q]) qs"

definition json_answer :: "ext \<Rightarrow> response result \<Rightarrow> bool" where
  "json_answer x a =
     (case a of
        Inl e \<Rightarrow> False
      | Inr resp \<Rightarrow>
          (case json_loads x (resp_text resp) of None \<Rightarrow> False | Some b \<Rightarrow> parses_back x b))"

text \<open>
  URLs that the interception layer tells apart: each one matches itself, and none
  matches one that comes later in the list.
\<close>

fun urls_separate :: "ext \<Rightarrow> string list \<Rightarrow> bool" where
  "urls_separate x [] = True"
| "urls_separate x (u # us) =
     (strict_url_match x u u \<and> list_all (\<lambda>v. \<not> strict_url_match x u v) us \<and>
      urls_separate x us)"

subsection \<open>A reference \<open>json\<close> module\<close>

text \<open>
  A printer and a parser for the values above, in the format of \<open>json.dumps\<close> (a comma
  and a space between items, a colon and a space after a key). They stand for the
  \<open>json\<close> module where a statement is evaluated on an example; the theorems hold for
  any module. Of the escapes only the quote, the backslash and the newline are covered.
  The parser takes fuel, one more than the length of its input, and gives \<open>None\<close> when
  the text is not JSON or the fuel runs out.
\<close>

definition digit_char :: "nat \<Rightarrow> char" where
  "digit_char n = char_of (48 + n)"

function dec :: "nat \<Rightarrow> string" where
  "dec n = (if n < 10 then [digit_char n] else dec (n div 10) @ [digit_char (n mod 10)])"
  by pat_completeness auto
termination
  by (relation "measure id") auto

declare dec.simps [simp del]

definition esc :: "char \<Rightarrow> string" where
  "esc c =
     (if c = CHR 0x22 then [CHR 0x5C, CHR 0x22]
      else if c = CHR 0x5C then [CHR 0x5C, CHR 0x5C]
      else if c = CHR 0x0A then [CHR 0x5C, CHR ''n'']
      else [c])"

definition quote :: "string \<Rightarrow> string" where
  "quote s = CHR 0x22 # concat (map esc s) @ [CHR 0x22]"

fun ref_dumps :: "json \<Rightarrow> string"
and dumps_items :: "json list \<Rightarrow> string"
and dumps_members :: "(string \<times> json) list \<Rightarrow> string" where
  "ref_dumps JNull = ''null''"
| "ref_dumps (JBool b) = (if b then ''true'' else ''false'')"
| "ref_dumps (JInt i) = (if i < 0 then CHR ''-'' # dec (nat (- i)) else dec (nat i))"
| "ref_dumps (JStr s) = quote s"
| "ref_dumps (JArr xs) = CHR ''['' # dumps_items xs @ '']''"
| "ref_dumps (JObj kvs) = CHR ''{'' # dumps_members kvs @ ''}''"
| "dumps_items [] = []"
| "dumps_items (v # vs) = ref_dumps v @ (if vs = [] then [] else '', '' @ dumps_items vs)"
| "dumps_members [] = []"
| "dumps_members (kv # kvs) =
     quote (fst kv) @ '': '' @ ref_dumps (snd kv) @
       (if kvs = [] then [] else '', '' @ dumps_members kvs)"

definition is_ws :: "char \<Rightarrow> bool" where
  "is_ws c = (c = CHR '' '' \<or> c = CHR 0x0A \<or> c = CHR 0x0D \<or> c = CHR 0x09)"

definition skip_ws :: "string \<Rightarrow> string" where
  "skip_ws s = dropWhile is_ws s"

definition is_digit :: "char \<Rightarrow> bool" where
  "is_digit c = (let n = (of_char c :: nat) in 48 \<le> n \<and> n \<le> 57)"

definition digits_val :: "string \<Rightarrow> nat" where
  "digits_val ds = foldl (\<lambda>a c. 10 * a + (of_char c - 48)) 0 ds"

text \<open>The characters of a string up to its closing quote, and what follows it.\<close>

fun parse_chars :: "string \<Rightarrow> (string \<times> string) option" where
  "parse_chars [] = None"
| "parse_chars (c # cs) =
     (if c = CHR 0x22 then Some ([], cs)
      else if c = CHR 0x5C then
        (case cs of
           [] \<Rightarrow> None
         | d # ds \<Rightarrow>
             (if d = CHR 0x22 \<or> d = CHR 0x5C \<or> d = CHR ''n'' then
                map_option (\<lambda>p. ((if d = CHR ''n'' then CHR 0x0A else d) # fst p, snd p))
                  (parse_chars ds)
              else None))
      else map_option (\<lambda>p. (c # fst p, snd p)) (parse_chars cs))"

definition parse_nat :: "string \<Rightarrow> (nat \<times> string) option" where
  "parse_nat s =
     (let ds = takeWhile is_digit s in
      if ds = [] \<or> (length ds > 1 \<and> hd ds = CHR ''0'') then None
      else Some (digits_val ds, dropWhile is_digit s))"

fun parse_value :: "nat \<Rightarrow> string \<Rightarrow> (json \<times> string) option"
and parse_items :: "nat \<Rightarrow> string \<Rightarrow> (json list \<times> string) option"
and parse_members :: "nat \<Rightarrow> string \<Rightarrow> ((string \<times> json) list \<times> string) option" where
  "parse_value 0 s = None"
| "parse_value (Suc n) s =
     (let t = skip_ws s in
      if prefix ''null'' t then Some (JNull, drop 4 t)
      else if prefix ''true'' t then Some (JBool True, drop 4 t)
      else if prefix ''false'' t then Some (JBool False, drop 5 t)
      else if prefix [CHR 0x22] t then
        map_option (\<lambda>p. (JStr (fst p), snd p)) (parse_chars (tl t))
      else if prefix ''['' t then
        (if prefix '']'' (skip_ws (tl t)) then Some (JArr [], tl (skip_ws (tl t)))
         else map_option (\<lambda>p. (JArr (fst p), snd p)) (parse_items n (tl t)))
      else if prefix ''{'' t then
        (if prefix ''}'' (skip_ws (tl t)) then Some (JObj [], tl (skip_ws (tl t)))
         else map_option (\<lambda>p. (JObj (fst p), snd p)) (parse_members n (tl t)))
      else if prefix ''-'' t then
        map_option (\<lambda>p. (JInt (- int (fst p)), snd p)) (parse_nat (tl t))
      else map_option (\<lambda>p. (JInt (int (fst p)), snd p)) (parse_nat t))"
| "parse_items 0 s = None"
| "parse_items (Suc n) s =
     (case parse_value n s of
        None \<Rightarrow> None
      | Some (v, r) \<Rightarrow>
          (let t = skip_ws r in
           if prefix '']'' t then Some ([v], tl t)
           else if prefix '','' t then
             map_option (\<lambda>p. (v # fst p, snd p)) (parse_items n (tl t))
           else None))"
| "parse_members 0 s = None"
| "parse_members (Suc n) s =
     (let t = skip_ws s in
      if prefix [CHR 0x22] t then
        (case parse_chars (tl t) of
           None \<Rightarrow> None
         | Some (k, r) \<Rightarrow>
             (if prefix '':'' (skip_ws r) then
                (case parse_value n (tl (skip_ws r)) of
                   None \<Rightarrow> None
                 | Some (v, r') \<Rightarrow>
                     (let t' = skip_ws r' in
                      if prefix ''}'' t' then Some ([(k, v)], tl t')
                      else if prefix '','' t' then
                        map_option (\<lambda>p. ((k, v) # fst p, snd p)) (parse_members n (tl t'))
                      else None))
              else None))
      else None)"

definition ref_loads :: "string \<Rightarrow> json option" where
  "ref_loads s =
     (case parse_value (Suc (length s)) s of
        None \<Rightarrow> None
      | Some (v, r) \<Rightarrow> if skip_ws r = [] then Some v else None)"

subsection \<open>An example: the test \<open>test_foo\<close> against a small API\<close>

text \<open>
  The comparison of URLs in the example, after \<open>_has_strict_url_match\<close> of
  \<open>responses\<close>: the parts before the query string are the same, and so are the sorted
  lists of the query parameters (\<open>parse_qsl\<close>: the pieces between ampersands that have
  an equals sign and a value after it). Percent-escapes are not decoded.
\<close>

definition url_base :: "string \<Rightarrow> string" where
  "url_base u = takeWhile (\<lambda>c. c \<noteq> CHR ''?'') (takeWhile (\<lambda>c. c \<noteq> CHR ''#'') u)"

definition url_query :: "string \<Rightarrow> string" where
  "url_query u = drop 1 (dropWhile (\<lambda>c. c \<noteq> CHR ''?'') (takeWhile (\<lambda>c. c \<noteq> CHR ''#'') u))"

fun split_on :: "char \<Rightarrow> string \<Rightarrow> string list" where
  "split_on c [] = [[]]"
| "split_on c (d # ds) =
     (if d = c then [] # split_on c ds
      else (case split_on c ds of [] \<Rightarrow> [[d]] | p # ps \<Rightarrow> (d # p) # ps))"

definition parse_qsl :: "string \<Rightarrow> (string \<times> string) list" where
  "parse_qsl qs =
     concat
       (map (\<lambda>name_value.
               let name = takeWhile (\<lambda>c. c \<noteq> CHR ''='') name_value;
                   rest = dropWhile (\<lambda>c. c \<noteq> CHR ''='') name_value
               in if rest = [] \<or> tl rest = [] then [] else [(name, tl rest)])
          (split_on CHR ''&'' qs))"

definition ref_url_match :: "string \<Rightarrow> string \<Rightarrow> bool" where
  "ref_url_match u v =
     (url_base u = url_base v \<and>
      sort (parse_qsl (url_query u)) = sort (parse_qsl (url_query v)))"

text \<open>
  A \<open>json.loads\<close> that gives every dict back in the opposite order: a dict of Python 2
  does not keep the order in which it was written.
\<close>

fun reorder :: "json \<Rightarrow> json" where
  "reorder (JArr xs) = JArr (map reorder xs)"
| "reorder (JObj kvs) = JObj (rev (map (\<lambda>kv. (fst kv, reorder (snd kv))) kvs))"
| "reorder v = v"

definition reordering_loads :: "string \<Rightarrow> json option" where
  "reordering_loads s = map_option reorder (ref_loads s)"

text \<open>
  The API answers these URLs: a JSON object sent gzip-encoded, a JSON array with status
  404, a plain text, and two JSON objects for the same path and query parameters in two
  orders. Any other request times out.
\<close>

definition resp_users :: response where
  \<open>resp_users =
     \<lparr>resp_status_code = 200,
      resp_headers = [(''Content-Type'', ''application/json''), (''content-encoding'', ''gzip'')],
      resp_text = ''{"id": 1, "name": "ann"}''\<rparr>\<close>

definition resp_ab :: response where
  \<open>resp_ab =
     \<lparr>resp_status_code = 200,
      resp_headers = [(''Content-Type'', ''application/json'')],
      resp_text = ''{"first": "a"}''\<rparr>\<close>

definition resp_ba :: response where
  \<open>resp_ba =
     \<lparr>resp_status_code = 200,
      resp_headers = [(''Content-Type'', ''application/json'')],
      resp_text = ''{"first": "b"}''\<rparr>\<close>

definition resp_items :: response where
  \<open>resp_items =
     \<lparr>resp_status_code = 404,
      resp_headers = [(''Content-Type'', ''application/json'')],
      resp_text = ''["none", -3]''\<rparr>\<close>

definition resp_motd :: response where
  "resp_motd =
     \<lparr>resp_status_code = 200,
      resp_headers = [(''Content-Type'', ''text/plain'')],
      resp_text = ''hello''\<rparr>"

definition example_send :: "request list \<Rightarrow> request \<Rightarrow> response result" where
  "example_send history q =
     (if req_url q = ''http://api.example.com/users?id=1'' then Inr resp_users
      else if req_url q = ''http://api.example.com/items'' then Inr resp_items
      else if req_url q = ''http://api.example.com/motd'' then Inr resp_motd
      else if req_url q = ''http://api.example.com/q?a=1&b=2'' then Inr resp_ab
      else if req_url q = ''http://api.example.com/q?b=2&a=1'' then Inr resp_ba
      else Inl Timeout)"

definition x0 :: ext where
  "x0 =
     \<lparr>json_dumps = ref_dumps, json_loads = ref_loads, send = example_send,
      strict_url_match = ref_url_match\<rparr>"

text \<open>The same, with the \<open>json.loads\<close> that reorders the dicts.\<close>

definition x_reorder :: ext where
  "x_reorder =
     \<lparr>json_dumps = ref_dumps, json_loads = reordering_loads, send = example_send,
      strict_url_match = ref_url_match\<rparr>"

text \<open>A world with no file, and one whose cassette file is not JSON.\<close>

definition w0 :: world where
  "w0 = \<lparr>files = Map.empty, writes = [], http_calls = []\<rparr>"

definition w_corrupt :: world where
  "w_corrupt =
     \<lparr>files = [''/repo/tests/cassettes/test_foo.cassette'' \<mapsto> ''[{not json''],
      writes = [], http_calls = []\<rparr>"

definition r0 :: recorder where
  "r0 = Recorder_init \<lparr>fspath_dirpath = ''/repo/tests'', node_name = ''test_foo''\<rparr> None None"

definition get_req :: "string \<Rightarrow> request" where
  "get_req u =
     \<lparr>req_method = ''GET'', req_url = u, req_path_url = drop 22 u,
      req_headers = [(''Accept'', ''*/*'')], req_body = None\<rparr>"

definition q_users :: request where
  "q_users = get_req ''http://api.example.com/users?id=1''"

definition q_items :: request where
  "q_items = get_req ''http://api.example.com/items''"

definition q_motd :: request where
  "q_motd = get_req ''http://api.example.com/motd''"

definition q_down :: request where
  "q_down = get_req ''http://api.example.com/down''"

definition q_ab :: request where
  "q_ab = get_req ''http://api.example.com/q?a=1&b=2''"

definition q_ba :: request where
  "q_ba = get_req ''http://api.example.com/q?b=2&a=1''"

definition q_post :: request where
  "q_post =
     \<lparr>req_method = ''POST'', req_url = ''http://api.example.com/users?id=1'',
      req_path_url = ''/users?id=1'', req_headers = [], req_body = Some ''name=x''\<rparr>"

text \<open>
  A first session from the empty world (setup, the requests, teardown), and a second
  session with the same requests in the world the first one leaves.
\<close>

definition first_run ::
  "ext \<Rightarrow> request list \<Rightarrow> (json \<times> json \<times> string) result list \<times> world \<times> recorder" where
  "first_run x qs = run x w0 (snd (Recorder_setup x w0 r0)) qs"

definition after_teardown :: "ext \<Rightarrow> request list \<Rightarrow> world" where
  "after_teardown x qs =
     fst (teardown x (fst (snd (first_run x qs))) (snd (snd (first_run x qs))))"

definition second_run ::
  "ext \<Rightarrow> request list \<Rightarrow> (json \<times> json \<times> string) result list \<times> world \<times> recorder" where
  "second_run x qs =
     run x (after_teardown x qs) (snd (Recorder_setup x (after_teardown x qs) r0)) qs"

text \<open>The cassette of the first session as \<open>json.loads\<close> reads it back.\<close>

definition reloaded :: "ext \<Rightarrow> request list \<Rightarrow> json" where
  "reloaded x qs =
     (case json_loads x (json_dumps x (cassette (snd (snd (first_run x qs))))) of
        None \<Rightarrow> JNull
      | Some c \<Rightarrow> c)"

section \<open>Properties\<close>

subsection \<open>The interception layer and the recording pattern\<close>

lemmas mock_defs = start_def stop_def reset_def add_callback_def

lemma re_match_star_only: "re_match [Star a] s"
  by (induction s) auto

lemma all_re_items:
  "all_re =
     [One (Lit CHR ''h''), One (Lit CHR ''t''), One (Lit CHR ''t''), One (Lit CHR ''p''), Star Dot]"
  by (simp add: all_re_def atom_of_def)

text \<open>The pattern \<open>http.*\<close> matches exactly the strings that start with \<open>http\<close>.\<close>

lemma re_match_all_re: "re_match all_re u = prefix ''http'' u"
proof (cases u)
  case Nil
  then show ?thesis by (simp add: all_re_items)
next
  case u1: (Cons a u1)
  show ?thesis
  proof (cases u1)
    case Nil
    with u1 show ?thesis by (simp add: all_re_items)
  next
    case u2: (Cons b u2)
    show ?thesis
    proof (cases u2)
      case Nil
      with u1 u2 show ?thesis by (simp add: all_re_items)
    next
      case u3: (Cons c u3)
      show ?thesis
      proof (cases u3)
        case Nil
        with u1 u2 u3 show ?thesis by (simp add: all_re_items)
      next
        case (Cons d u4)
        with u1 u2 u3 show ?thesis
          by (auto simp add: all_re_items re_match_star_only)
      qed
    qed
  qed
qed

lemma prefix_http_without_qs: "prefix ''http'' (without_qs u) = prefix ''http'' u"
  unfolding without_qs_def
  apply (cases u; simp)
  subgoal for a u1
    apply (cases u1; simp)
    subgoal for b u2
      apply (cases u2; simp)
      subgoal for c u3
        by (cases u3; auto)
      done
    done
  done

lemma record_stub_matches:
  "find_match x [record_stub] q =
     (if req_method q = ''GET'' \<and> prefix ''http'' (req_url q) then Some record_stub else None)"
  by (simp add: record_stub_def has_url_match_def re_match_all_re prefix_http_without_qs)

lemma find_match_mem: "find_match x ss q = Some s \<Longrightarrow> s \<in> set ss"
  by (induction ss) (auto split: if_splits)

lemma play_stub_match:
  "has_url_match x (play_stub q resp) u = strict_url_match x (req_url q) u"
  by (simp add: has_url_match_def play_stub_def)

lemma is_play_callback: "is_play s \<Longrightarrow> \<exists>resp. callback s = PlayCb resp"
  by (cases "callback s") (auto simp add: is_play_def)

subsection \<open>The recorder's fields\<close>

lemma cass_file_responses [simp]: "cass_file (r\<lparr>responses := m\<rparr>) = cass_file r"
  by (simp add: cass_file_def cass_dir_def test_name_def)

lemma has_cassette_responses [simp]:
  "has_cassette w (r\<lparr>responses := m\<rparr>) = has_cassette w r"
  by (simp add: has_cassette_def)

lemma cass_file_cong:
  "basedir r' = basedir r \<Longrightarrow> cassette_name r' = cassette_name r \<Longrightarrow> cass_file r' = cass_file r"
  by (simp add: cass_file_def cass_dir_def test_name_def)

lemma stubs_setup_recording: "stubs (responses (setup_recording r)) = [record_stub]"
  by (simp add: setup_recording_def record_stub_def mock_defs)

lemma started_setup_recording:
  "started (responses (setup_recording r)) = started (responses r)"
  by (simp add: setup_recording_def mock_defs)

lemma setup_recording_fields:
  "cassette (setup_recording r) = cassette r \<and>
   has_recorded (setup_recording r) = has_recorded r \<and>
   basedir (setup_recording r) = basedir r \<and>
   cassette_name (setup_recording r) = cassette_name r"
  by (simp add: setup_recording_def)

lemma lower_content_encoding: "lower ''Content-Encoding'' = ''content-encoding''"
  by code_simp

lemma ci_del_no_key: "lower k \<notin> set (map (\<lambda>kv. lower (fst kv)) (ci_del hs k))"
  by (auto simp add: ci_del_def)

subsection \<open>What a request leaves unchanged\<close>

lemma record_callback_frame:
  assumes "record_callback x w r q = (out, w', r')"
  shows "stubs (responses r') = stubs (responses r) \<and> started (responses r') \<and>
         basedir r' = basedir r \<and> cassette_name r' = cassette_name r \<and>
         writes w' = writes w \<and> files w' = files w \<and>
         http_calls w' = http_calls w @ [q]"
  using assms
  by (auto simp add: record_callback_def mock_defs Let_def split: sum.splits json.splits)

lemma dispatch_frame:
  assumes "dispatch x w r q = (out, w', r')"
  shows "stubs (responses r') = stubs (responses r) \<and>
         basedir r' = basedir r \<and> cassette_name r' = cassette_name r \<and>
         writes w' = writes w \<and> files w' = files w"
proof (cases "started (responses r)")
  case False
  with assms show ?thesis by (auto simp add: dispatch_def)
next
  case True
  show ?thesis
  proof (cases "find_match x (stubs (responses r)) q")
    case None
    with True assms show ?thesis by (auto simp add: dispatch_def)
  next
    case (Some s)
    show ?thesis
    proof (cases "callback s")
      case RecordCb
      with True Some assms have "record_callback x w r q = (out, w', r')"
        by (simp add: dispatch_def)
      from record_callback_frame[OF this] show ?thesis by simp
    next
      case (PlayCb resp)
      with True Some assms show ?thesis by (auto simp add: dispatch_def)
    qed
  qed
qed

lemma run_Cons_proj:
  "dispatch x w r q = (out, w1, r1) \<Longrightarrow>
   fst (run x w r (q # qs)) = out # fst (run x w1 r1 qs) \<and>
   snd (run x w r (q # qs)) = snd (run x w1 r1 qs)"
  by (simp split: prod.splits)

lemma run_frame:
  assumes "run x w r qs = (outs, w', r')"
  shows "stubs (responses r') = stubs (responses r) \<and>
         basedir r' = basedir r \<and> cassette_name r' = cassette_name r \<and>
         writes w' = writes w \<and> files w' = files w"
  using assms
proof (induction qs arbitrary: w r outs w' r')
  case Nil
  then show ?case by simp
next
  case (Cons q qs)
  obtain out w1 r1 where d: "dispatch x w r q = (out, w1, r1)"
    by (cases "dispatch x w r q") auto
  obtain outs1 w2 r2 where rr: "run x w1 r1 qs = (outs1, w2, r2)"
    by (cases "run x w1 r1 qs") auto
  from Cons.prems d rr have eq: "w' = w2" "r' = r2" by simp_all
  from dispatch_frame[OF d] Cons.IH[OF rr] eq show ?case by simp
qed

lemma teardown_facts:
  assumes "teardown x w r = (w', r')"
  shows "\<not> started (responses r') \<and> stubs (responses r') = [] \<and>
         writes w' = writes w @ (if has_recorded r then [cass_file r] else []) \<and>
         files w' =
           (if has_recorded r then (files w)(cass_file r \<mapsto> json_dumps x (cassette r))
            else files w) \<and>
         http_calls w' = http_calls w"
  using assms by (auto simp add: teardown_def Let_def mock_defs)

subsection \<open>A session that plays\<close>

lemma dispatch_playback:
  assumes "started (responses r)" and "list_all is_play (stubs (responses r))"
  shows "snd (dispatch x w r q) = (w, r)"
proof (cases "find_match x (stubs (responses r)) q")
  case None
  with assms show ?thesis by (simp add: dispatch_def)
next
  case (Some s)
  then have "s \<in> set (stubs (responses r))" by (rule find_match_mem)
  with assms(2) have "is_play s" by (simp add: list_all_iff)
  then obtain resp where "callback s = PlayCb resp" using is_play_callback by blast
  with Some assms show ?thesis by (simp add: dispatch_def)
qed

lemma run_playback:
  assumes "started (responses r)" and "list_all is_play (stubs (responses r))"
  shows "snd (run x w r qs) = (w, r)"
proof (induction qs)
  case Nil
  then show ?case by simp
next
  case (Cons q qs)
  from dispatch_playback[OF assms, of x w q] Cons show ?case
    by (auto split: prod.splits)
qed

lemma rewind_tracks_play:
  assumes "rewind_tracks ts r = (e, r')" and "list_all is_play (stubs (responses r))"
  shows "list_all is_play (stubs (responses r')) \<and>
         started (responses r') = started (responses r) \<and>
         has_recorded r' = has_recorded r \<and> cassette r' = cassette r \<and>
         basedir r' = basedir r \<and> cassette_name r' = cassette_name r"
  using assms
proof (induction ts arbitrary: r)
  case Nil
  then show ?case by simp
next
  case (Cons t ts)
  show ?case
  proof (cases "\<exists>req m u resp. getitem t ''request'' = Inr req \<and>
                  getitem req ''method'' = Inr m \<and> getitem req ''url'' = Inr u \<and>
                  getitem t ''response'' = Inr resp")
    case True
    then obtain req m u resp where g: "getitem t ''request'' = Inr req"
      "getitem req ''method'' = Inr m" "getitem req ''url'' = Inr u"
      "getitem t ''response'' = Inr resp" by blast
    let ?r1 = "r\<lparr>responses := add_callback m (Plain u) True (PlayCb resp) (responses r)\<rparr>"
    from Cons.prems(1) g have "rewind_tracks ts ?r1 = (e, r')" by simp
    moreover from Cons.prems(2) have "list_all is_play (stubs (responses ?r1))"
      by (simp add: mock_defs) (simp add: is_play_def)
    ultimately have "list_all is_play (stubs (responses r')) \<and>
         started (responses r') = started (responses ?r1) \<and>
         has_recorded r' = has_recorded ?r1 \<and> cassette r' = cassette ?r1 \<and>
         basedir r' = basedir ?r1 \<and> cassette_name r' = cassette_name ?r1"
      by (rule Cons.IH)
    then show ?thesis by (simp add: mock_defs)
  next
    case False
    with Cons.prems have "r' = r"
      by (auto split: sum.splits)
    with Cons.prems(2) show ?thesis by simp
  qed
qed

text \<open>
  Whatever \<open>setup_playback\<close> returns, from a recorder that has registered only playing
  stand-ins so far, it leaves only playing stand-ins.
\<close>

lemma setup_playback_play:
  assumes "setup_playback x w r = (err, r')" and "list_all is_play (stubs (responses r))"
  shows "list_all is_play (stubs (responses r')) \<and>
         started (responses r') = started (responses r) \<and>
         has_recorded r' = has_recorded r \<and>
         basedir r' = basedir r \<and> cassette_name r' = cassette_name r"
proof (cases "insert_cassette x w r")
  case (Pair e1 ra)
  show ?thesis
  proof (cases e1)
    case None
    with Pair have ra: "responses ra = responses r" "has_recorded ra = has_recorded r"
      "basedir ra = basedir r" "cassette_name ra = cassette_name r"
      by (auto simp add: insert_cassette_def split: if_splits option.splits)
    let ?r2 = "ra\<lparr>responses := reset (responses ra)\<rparr>"
    from assms(1) Pair None have rw: "rewind_cassette ?r2 = (err, r')"
      by (simp add: setup_playback_def)
    show ?thesis
    proof (cases "py_iter (cassette ?r2)")
      case (Inl e2)
      with rw have "r' = ?r2" by (simp add: rewind_cassette_def)
      with ra show ?thesis by (simp add: mock_defs)
    next
      case (Inr ts)
      with rw have "rewind_tracks ts ?r2 = (err, r')" by (simp add: rewind_cassette_def)
      moreover have "list_all is_play (stubs (responses ?r2))" by (simp add: mock_defs)
      ultimately have "list_all is_play (stubs (responses r')) \<and>
          started (responses r') = started (responses ?r2) \<and>
          has_recorded r' = has_recorded ?r2 \<and> cassette r' = cassette ?r2 \<and>
          basedir r' = basedir ?r2 \<and> cassette_name r' = cassette_name ?r2"
        by (rule rewind_tracks_play)
      with ra show ?thesis by (simp add: mock_defs)
    qed
  next
    case (Some e2)
    with Pair assms(1) have "r' = ra" by (simp add: setup_playback_def)
    moreover from Pair Some have "ra = r"
      by (auto simp add: insert_cassette_def split: if_splits option.splits)
    ultimately show ?thesis using assms(2) by simp
  qed
qed

text \<open>When it succeeds, it has cleared the stand-ins first: nothing is asked of them.\<close>

lemma setup_playback_ok:
  assumes "setup_playback x w r = (None, r')"
  shows "list_all is_play (stubs (responses r')) \<and>
         started (responses r') = started (responses r)"
proof -
  obtain e1 r1 where ic: "insert_cassette x w r = (e1, r1)"
    by (cases "insert_cassette x w r") auto
  with assms have e1: "e1 = None"
    by (cases e1) (auto simp add: setup_playback_def)
  from ic have r1: "responses r1 = responses r"
    by (auto simp add: insert_cassette_def split: if_splits option.splits)
  let ?r2 = "r1\<lparr>responses := reset (responses r1)\<rparr>"
  from assms ic e1 have rw: "rewind_cassette ?r2 = (None, r')"
    by (simp add: setup_playback_def)
  then obtain ts where "rewind_tracks ts ?r2 = (None, r')"
    by (auto simp add: rewind_cassette_def split: sum.splits)
  moreover have "list_all is_play (stubs (responses ?r2))" by (simp add: mock_defs)
  ultimately have "list_all is_play (stubs (responses r')) \<and>
       started (responses r') = started (responses ?r2) \<and>
       has_recorded r' = has_recorded ?r2 \<and> cassette r' = cassette ?r2 \<and>
       basedir r' = basedir ?r2 \<and> cassette_name r' = cassette_name ?r2"
    by (rule rewind_tracks_play)
  with r1 show ?thesis by (simp add: mock_defs)
qed

subsection \<open>A session that records\<close>

lemma record_callback_ok:
  assumes "send x (http_calls w) q = Inr resp" and "cassette r = JArr ts"
  shows "record_callback x w r q =
           (Inr (reply_of x resp), w\<lparr>http_calls := http_calls w @ [q]\<rparr>,
            r\<lparr>responses := start (stop (responses r)),
              cassette := JArr (ts @ [track_of x (q, resp)]), has_recorded := True\<rparr>)"
  using assms by (simp add: record_callback_def reply_of_def track_of_def Let_def mock_defs)

lemma record_callback_cassette:
  assumes "record_callback x w r q = (out, w', r')" and "cassette r = JArr ts"
  shows "(isl out \<longrightarrow> cassette r' = JArr ts \<and> has_recorded r' = has_recorded r) \<and>
         (\<not> isl out \<longrightarrow> (\<exists>t. cassette r' = JArr (ts @ [t])) \<and> has_recorded r')"
  using assms
  by (auto simp add: record_callback_def mock_defs Let_def split: sum.splits)

lemma dispatch_recording:
  assumes "dispatch x w r q = (out, w', r')"
    and "started (responses r)" and "stubs (responses r) = [record_stub]"
    and "cassette r = JArr ts"
  shows "started (responses r') \<and>
         (isl out \<longrightarrow> cassette r' = JArr ts \<and> has_recorded r' = has_recorded r) \<and>
         (\<not> isl out \<longrightarrow> (\<exists>t. cassette r' = JArr (ts @ [t])) \<and> has_recorded r')"
proof (cases "find_match x [record_stub] q")
  case None
  with assms show ?thesis by (auto simp add: dispatch_def)
next
  case (Some s)
  then have "s = record_stub" by (auto split: if_splits)
  with Some assms have rc: "record_callback x w r q = (out, w', r')"
    by (simp add: dispatch_def record_stub_def)
  from record_callback_frame[OF rc] record_callback_cassette[OF rc assms(4)]
  show ?thesis by simp
qed

text \<open>One track is appended for each request that got an answer, and none is removed.\<close>

lemma run_recording:
  assumes "run x w r qs = (outs, w', r')"
    and "started (responses r)" and "stubs (responses r) = [record_stub]"
    and "cassette r = JArr ts"
  shows "\<exists>new. cassette r' = JArr (ts @ new) \<and>
           length new = length (filter (\<lambda>out. \<not> isl out) outs) \<and>
           has_recorded r' = (has_recorded r \<or> new \<noteq> [])"
  using assms
proof (induction qs arbitrary: w r outs ts w' r')
  case Nil
  then show ?case by simp
next
  case (Cons q qs)
  obtain out w1 r1 where d: "dispatch x w r q = (out, w1, r1)"
    by (cases "dispatch x w r q") auto
  obtain outs1 w2 r2 where rr: "run x w1 r1 qs = (outs1, w2, r2)"
    by (cases "run x w1 r1 qs") auto
  from Cons.prems(1) d rr have eq: "outs = out # outs1" "r' = r2" by simp_all
  from dispatch_frame[OF d] Cons.prems(3) have st1: "stubs (responses r1) = [record_stub]"
    by simp
  note dr = dispatch_recording[OF d Cons.prems(2) Cons.prems(3) Cons.prems(4)]
  show ?case
  proof (cases "isl out")
    case True
    with dr have c1: "cassette r1 = JArr ts" "has_recorded r1 = has_recorded r"
      "started (responses r1)"
      by simp_all
    from Cons.IH[OF rr c1(3) st1 c1(1)] c1(2) eq True show ?thesis by simp
  next
    case False
    with dr obtain t where c1: "cassette r1 = JArr (ts @ [t])" "has_recorded r1"
      "started (responses r1)"
      by auto
    from Cons.IH[OF rr c1(3) st1 c1(1)] obtain new where
      n: "cassette r2 = JArr ((ts @ [t]) @ new)"
         "length new = length (filter (\<lambda>out. \<not> isl out) outs1)"
      by blast
    from Cons.IH[OF rr c1(3) st1 c1(1)] c1(2) have hr: "has_recorded r2" by auto
    have "cassette r' = JArr (ts @ (t # new))" using n eq by simp
    moreover have "length (t # new) = length (filter (\<lambda>out. \<not> isl out) outs)"
      using n eq False by simp
    moreover have "has_recorded r' = (has_recorded r \<or> t # new \<noteq> [])" using hr eq by simp
    ultimately show ?thesis by blast
  qed
qed

lemma dispatch_recording_ok:
  assumes "started (responses r)" and "stubs (responses r) = [record_stub]"
    and "is_get q"
  shows "dispatch x w r q = record_callback x w r q"
proof -
  have "find_match x (stubs (responses r)) q = Some record_stub"
    using assms(2,3) by (simp only: record_stub_matches is_get_def) simp
  moreover have "callback record_stub = RecordCb" by (simp add: record_stub_def)
  ultimately show ?thesis using assms(1) by (simp add: dispatch_def)
qed

text \<open>
  GET requests that all get a JSON answer: the replies and the cassette of the run, in
  terms of the responses of the real client.
\<close>

lemma run_recording_exact:
  assumes "started (responses r)" and "stubs (responses r) = [record_stub]"
    and "cassette r = JArr ts"
    and "list_all is_get qs"
    and "list_all (json_answer x) (net_answers x (http_calls w) qs)"
  shows "\<exists>resps. length resps = length qs \<and>
           list_all (\<lambda>resp. json_answer x (Inr resp)) resps \<and>
           fst (run x w r qs) = map (\<lambda>resp. Inr (reply_of x resp)) resps \<and>
           cassette (snd (snd (run x w r qs))) = JArr (ts @ map (track_of x) (zip qs resps)) \<and>
           has_recorded (snd (snd (run x w r qs))) = (has_recorded r \<or> qs \<noteq> [])"
  using assms
proof (induction qs arbitrary: w r ts)
  case Nil
  then show ?case by simp
next
  case (Cons q qs)
  from Cons.prems(5) obtain resp where s: "send x (http_calls w) q = Inr resp"
    and j: "json_answer x (Inr resp)"
    by (cases "send x (http_calls w) q") (auto simp add: json_answer_def)
  let ?w1 = "w\<lparr>http_calls := http_calls w @ [q]\<rparr>"
  let ?r1 = "r\<lparr>responses := start (stop (responses r)),
               cassette := JArr (ts @ [track_of x (q, resp)]), has_recorded := True\<rparr>"
  from Cons.prems(4) have g: "is_get q" "list_all is_get qs" by simp_all
  have d: "dispatch x w r q = (Inr (reply_of x resp), ?w1, ?r1)"
    using dispatch_recording_ok[OF Cons.prems(1) Cons.prems(2) g(1)]
      record_callback_ok[OF s Cons.prems(3)] by simp
  have p1: "started (responses ?r1)" "stubs (responses ?r1) = [record_stub]"
    "cassette ?r1 = JArr (ts @ [track_of x (q, resp)])"
    using Cons.prems(2) by (simp_all add: mock_defs)
  have p5: "list_all (json_answer x) (net_answers x (http_calls ?w1) qs)"
    using Cons.prems(5) by simp
  from Cons.IH[OF p1 g(2) p5] obtain resps where
    r: "length resps = length qs"
       "list_all (\<lambda>resp. json_answer x (Inr resp)) resps"
       "fst (run x ?w1 ?r1 qs) = map (\<lambda>resp. Inr (reply_of x resp)) resps"
       "cassette (snd (snd (run x ?w1 ?r1 qs))) =
          JArr ((ts @ [track_of x (q, resp)]) @ map (track_of x) (zip qs resps))"
       "has_recorded (snd (snd (run x ?w1 ?r1 qs)))"
    by auto
  have "length (resp # resps) = length (q # qs)" using r(1) by simp
  moreover have "list_all (\<lambda>resp. json_answer x (Inr resp)) (resp # resps)"
    using r(2) j by simp
  moreover have "fst (run x w r (q # qs)) = map (\<lambda>resp. Inr (reply_of x resp)) (resp # resps)"
    using run_Cons_proj[OF d, of qs] r(3) by simp
  moreover have "cassette (snd (snd (run x w r (q # qs)))) =
      JArr (ts @ map (track_of x) (zip (q # qs) (resp # resps)))"
    using run_Cons_proj[OF d, of qs] r(4) by simp
  moreover have "has_recorded (snd (snd (run x w r (q # qs)))) = (has_recorded r \<or> q # qs \<noteq> [])"
    using run_Cons_proj[OF d, of qs] r(5) by simp
  ultimately show ?case by blast
qed

subsection \<open>Equality of Python values\<close>

lemma json_eq_JStr [simp]: "json_eq (JStr s) v = (v = JStr s)"
  by (cases v) auto

lemma json_eq_JInt [simp]: "json_eq (JInt i) v = (v = JInt i)"
  by (cases v) auto

lemma json_eq_JArr: "json_eq (JArr xs) v = (\<exists>ys. v = JArr ys \<and> list_all2 json_eq xs ys)"
  by (cases v) auto

lemma json_eq_JObj:
  "json_eq (JObj kvs) v =
     (\<exists>kvs'. v = JObj kvs' \<and> distinct (map fst kvs) \<and> distinct (map fst kvs') \<and>
        length kvs = length kvs' \<and>
        (\<forall>kv\<in>set kvs. \<exists>v'. map_of kvs' (fst kv) = Some v' \<and> json_eq (snd kv) v'))"
  by (cases v) (auto split: option.splits)

text \<open>Equal dicts give equal values for a key.\<close>

lemma json_eq_getitem:
  assumes "json_eq t t'" and "getitem t k = Inr v"
  shows "\<exists>v'. getitem t' k = Inr v' \<and> json_eq v v'"
proof (cases t)
  case (JObj kvs)
  with assms(2) have m: "map_of kvs k = Some v" by (simp split: option.splits)
  then have "(k, v) \<in> set kvs" by (rule map_of_SomeD)
  moreover from assms(1) JObj obtain kvs' where t': "t' = JObj kvs'"
    and all: "\<forall>kv\<in>set kvs. \<exists>v'. map_of kvs' (fst kv) = Some v' \<and> json_eq (snd kv) v'"
    by (auto simp add: json_eq_JObj)
  ultimately obtain v' where "map_of kvs' k = Some v'" "json_eq v v'" by fastforce
  with t' show ?thesis by simp
qed (use assms(2) in simp_all)

text \<open>Two dicts with distinct keys, the same number of them, and the keys of one among
  the keys of the other, have the same keys.\<close>

lemma same_keys:
  assumes "distinct (map fst kvs)" and "distinct (map fst kvs')"
    and "length kvs = length kvs'"
    and "fst ` set kvs \<subseteq> fst ` set kvs'"
  shows "fst ` set kvs = fst ` set kvs'"
proof -
  have "card (fst ` set kvs) = length kvs"
    using assms(1) distinct_card[of "map fst kvs"] by simp
  moreover have "card (fst ` set kvs') = length kvs'"
    using assms(2) distinct_card[of "map fst kvs'"] by simp
  ultimately have "card (fst ` set kvs') \<le> card (fst ` set kvs)" using assms(3) by simp
  with assms(4) show ?thesis by (intro card_seteq) simp_all
qed

lemma json_eq_sym: "json_eq a b \<Longrightarrow> json_eq b a"
proof (induction a arbitrary: b)
  case (JArr xs)
  from JArr.prems obtain ys where b: "b = JArr ys" and l: "list_all2 json_eq xs ys"
    by (auto simp add: json_eq_JArr)
  have "list_all2 json_eq ys xs"
    unfolding list_all2_conv_all_nth
  proof (intro conjI allI impI)
    show "length ys = length xs" using l by (simp add: list_all2_lengthD)
  next
    fix i assume "i < length ys"
    with l have i: "i < length xs" and "json_eq (xs ! i) (ys ! i)"
      by (simp_all add: list_all2_conv_all_nth)
    with JArr.IH[of "xs ! i" "ys ! i"] show "json_eq (ys ! i) (xs ! i)" by simp
  qed
  with b show ?case by simp
next
  case (JObj kvs)
  from JObj.prems obtain kvs' where b: "b = JObj kvs'"
    and d: "distinct (map fst kvs)" "distinct (map fst kvs')"
    and len: "length kvs = length kvs'"
    and all: "\<forall>kv\<in>set kvs. \<exists>v'. map_of kvs' (fst kv) = Some v' \<and> json_eq (snd kv) v'"
    by (auto simp add: json_eq_JObj)
  have sub: "fst ` set kvs \<subseteq> fst ` set kvs'"
  proof
    fix k assume "k \<in> fst ` set kvs"
    then obtain kv where "kv \<in> set kvs" "k = fst kv" by auto
    with all obtain v' where "map_of kvs' k = Some v'" by blast
    then have "(k, v') \<in> set kvs'" by (rule map_of_SomeD)
    then show "k \<in> fst ` set kvs'" by force
  qed
  from same_keys[OF d len sub] have keys: "fst ` set kvs = fst ` set kvs'" .
  have "\<forall>kv'\<in>set kvs'. \<exists>v. map_of kvs (fst kv') = Some v \<and> json_eq (snd kv') v"
  proof
    fix kv' assume in': "kv' \<in> set kvs'"
    then have "fst kv' \<in> fst ` set kvs" using keys by force
    then obtain kv where kv: "kv \<in> set kvs" "fst kv = fst kv'" by force
    with all obtain v' where v': "map_of kvs' (fst kv') = Some v'" "json_eq (snd kv) v'"
      by force
    from d(2) in' have "map_of kvs' (fst kv') = Some (snd kv')" by simp
    with v' have e: "json_eq (snd kv) (snd kv')" by simp
    have "snd kv \<in> Basic_BNFs.snds kv" by (cases kv) simp
    from JObj.IH[OF kv(1) this e] have "json_eq (snd kv') (snd kv)" .
    moreover from d(1) kv have "map_of kvs (fst kv') = Some (snd kv)"
      by (metis map_of_eq_Some_iff prod.collapse)
    ultimately show "\<exists>v. map_of kvs (fst kv') = Some v \<and> json_eq (snd kv') v" by blast
  qed
  with b d len show ?case by (simp add: json_eq_JObj)
qed (auto)

lemma json_eq_trans: "json_eq a b \<Longrightarrow> json_eq b c \<Longrightarrow> json_eq a c"
proof (induction a arbitrary: b c)
  case (JArr xs)
  from JArr.prems(1) obtain ys where b: "b = JArr ys" and l1: "list_all2 json_eq xs ys"
    by (auto simp add: json_eq_JArr)
  from JArr.prems(2) b obtain zs where c: "c = JArr zs" and l2: "list_all2 json_eq ys zs"
    by (auto simp add: json_eq_JArr)
  have "list_all2 json_eq xs zs"
    unfolding list_all2_conv_all_nth
  proof (intro conjI allI impI)
    show "length xs = length zs" using l1 l2 by (simp add: list_all2_lengthD)
  next
    fix i assume i: "i < length xs"
    with l1 have 1: "json_eq (xs ! i) (ys ! i)" and "i < length ys"
      by (simp_all add: list_all2_conv_all_nth)
    with l2 have 2: "json_eq (ys ! i) (zs ! i)" by (simp add: list_all2_conv_all_nth)
    from i JArr.IH[of "xs ! i" "ys ! i" "zs ! i"] 1 2 show "json_eq (xs ! i) (zs ! i)" by simp
  qed
  with c show ?case by simp
next
  case (JObj kvs)
  from JObj.prems(1) obtain kvs' where b: "b = JObj kvs'"
    and d1: "distinct (map fst kvs)" "distinct (map fst kvs')"
    and len1: "length kvs = length kvs'"
    and all1: "\<forall>kv\<in>set kvs. \<exists>v'. map_of kvs' (fst kv) = Some v' \<and> json_eq (snd kv) v'"
    by (auto simp add: json_eq_JObj)
  from JObj.prems(2) b obtain kvs'' where c: "c = JObj kvs''"
    and d2: "distinct (map fst kvs'')"
    and len2: "length kvs' = length kvs''"
    and all2: "\<forall>kv\<in>set kvs'. \<exists>v'. map_of kvs'' (fst kv) = Some v' \<and> json_eq (snd kv) v'"
    by (auto simp add: json_eq_JObj)
  have "\<forall>kv\<in>set kvs. \<exists>v''. map_of kvs'' (fst kv) = Some v'' \<and> json_eq (snd kv) v''"
  proof
    fix kv assume kv: "kv \<in> set kvs"
    with all1 obtain v' where v': "map_of kvs' (fst kv) = Some v'" "json_eq (snd kv) v'"
      by blast
    then have "(fst kv, v') \<in> set kvs'" by (simp add: map_of_SomeD)
    with all2 obtain v'' where v'': "map_of kvs'' (fst kv) = Some v''" "json_eq v' v''"
      by force
    have "snd kv \<in> Basic_BNFs.snds kv" by (cases kv) simp
    from JObj.IH[OF kv this v'(2) v''(2)] v''(1)
    show "\<exists>v''. map_of kvs'' (fst kv) = Some v'' \<and> json_eq (snd kv) v''" by blast
  qed
  with c d1 d2 len1 len2 show ?case by (simp add: json_eq_JObj)
qed (auto)

subsection \<open>Replaying what was recorded\<close>


text \<open>A track equal to the one recorded holds the same method and URL, and an equal
  response.\<close>

lemma track_eq_request:
  assumes "json_eq (track_of x qr) t'"
  shows "\<exists>rq'. getitem t' ''request'' = Inr rq' \<and>
           getitem rq' ''method'' = Inr (JStr (req_method (fst qr))) \<and>
           getitem rq' ''url'' = Inr (JStr (req_url (fst qr)))"
proof -
  have "getitem (track_of x qr) ''request'' = Inr (track_request (fst qr))"
    by (simp add: track_of_def)
  from json_eq_getitem[OF assms this] obtain rq' where
    rq: "getitem t' ''request'' = Inr rq'" "json_eq (track_request (fst qr)) rq'" by blast
  have "getitem (track_request (fst qr)) ''method'' = Inr (JStr (req_method (fst qr)))"
    by (simp add: track_request_def)
  from json_eq_getitem[OF rq(2) this]
  have m: "getitem rq' ''method'' = Inr (JStr (req_method (fst qr)))" by simp
  have "getitem (track_request (fst qr)) ''url'' = Inr (JStr (req_url (fst qr)))"
    by (simp add: track_request_def)
  from json_eq_getitem[OF rq(2) this]
  have "getitem rq' ''url'' = Inr (JStr (req_url (fst qr)))" by simp
  with rq(1) m show ?thesis by blast
qed

lemma track_eq_response:
  assumes "json_eq (track_of x qr) t'"
  shows "getitem t' ''response'' = Inr (stored_response t') \<and>
         json_eq (track_response x (snd qr)) (stored_response t')"
proof -
  have "getitem (track_of x qr) ''response'' = Inr (track_response x (snd qr))"
    by (simp add: track_of_def)
  from json_eq_getitem[OF assms this] show ?thesis
    by (auto simp add: stored_response_def)
qed

lemma rewind_tracks_related:
  assumes "list_all2 (\<lambda>qr t'. json_eq (track_of x qr) t') qrs ts'"
  shows "rewind_tracks ts' r =
     (None,
      r\<lparr>responses := (responses r)\<lparr>stubs := stubs (responses r) @
           map (\<lambda>p. play_stub (fst (fst p)) (stored_response (snd p))) (zip qrs ts')\<rparr>\<rparr>)"
  using assms
proof (induction arbitrary: r rule: list_all2_induct)
  case Nil
  then show ?case by simp
next
  case (Cons qr qrs t' ts')
  from track_eq_request[OF Cons.hyps(1)] obtain rq' where
    g: "getitem t' ''request'' = Inr rq'"
       "getitem rq' ''method'' = Inr (JStr (req_method (fst qr)))"
       "getitem rq' ''url'' = Inr (JStr (req_url (fst qr)))" by blast
  from track_eq_response[OF Cons.hyps(1)]
  have g4: "getitem t' ''response'' = Inr (stored_response t')" by simp
  show ?case
    by (simp add: g g4 Cons.IH) (simp add: add_callback_def play_stub_def)
qed

text \<open>What \<open>play\<close> returns for a stored response equal to the recorded one.\<close>

lemma play_stored:
  assumes "json_eq (track_response x resp) rs'"
  shows "\<exists>hs' b'. play x rs' q =
             Inr (JInt (resp_status_code resp), hs', json_dumps x b') \<and>
           json_eq (headers_dict (strip_encoding (resp_headers resp))) hs' \<and>
           getitem rs' ''body'' = Inr b' \<and>
           json_eq (fst (decoded_body x resp)) b'"
proof -
  have "getitem (track_response x resp) ''status_code'' = Inr (JInt (resp_status_code resp))"
    by (simp add: track_response_def)
  from json_eq_getitem[OF assms this]
  have s: "getitem rs' ''status_code'' = Inr (JInt (resp_status_code resp))" by simp
  have "getitem (track_response x resp) ''headers'' =
      Inr (headers_dict (strip_encoding (resp_headers resp)))"
    by (simp add: track_response_def)
  from json_eq_getitem[OF assms this] obtain hs' where
    h: "getitem rs' ''headers'' = Inr hs'"
       "json_eq (headers_dict (strip_encoding (resp_headers resp))) hs'" by blast
  have "getitem (track_response x resp) ''body'' = Inr (fst (decoded_body x resp))"
    by (simp add: track_response_def)
  from json_eq_getitem[OF assms this] obtain b' where
    b: "getitem rs' ''body'' = Inr b'" "json_eq (fst (decoded_body x resp)) b'" by blast
  have "play x rs' q = Inr (JInt (resp_status_code resp), hs', json_dumps x b')"
    by (simp add: play_def s h(1) b(1))
  with h(2) b show ?thesis by blast
qed

text \<open>
  The reply of the recording callback and the reply of \<open>play\<close> for the stored response
  are the same up to the serialisation of the body, when the \<open>json\<close> module parses back
  the recorded body and the stored one.
\<close>

lemma reply_eq_play:
  assumes "json_answer x (Inr resp)"
    and "json_eq (track_response x resp) rs'"
    and "case getitem rs' ''body'' of Inl e \<Rightarrow> False | Inr b \<Rightarrow> parses_back x b"
  shows "reply_eq x (Inr (reply_of x resp)) (play x rs' q)"
proof -
  from assms(1) obtain b v1 where
    l: "json_loads x (resp_text resp) = Some b"
    and p1: "json_loads x (json_dumps x b) = Some v1" "json_eq b v1"
    by (auto simp add: json_answer_def parses_back_def split: option.splits)
  from l have db: "decoded_body x resp = (b, json_dumps x b)"
    by (simp add: decoded_body_def)
  from play_stored[OF assms(2), of q] db obtain hs' b' where
    pl: "play x rs' q = Inr (JInt (resp_status_code resp), hs', json_dumps x b')"
    and h: "json_eq (headers_dict (strip_encoding (resp_headers resp))) hs'"
    and g: "getitem rs' ''body'' = Inr b'"
    and bb: "json_eq b b'"
    by auto
  from assms(3) g obtain v2 where
    p2: "json_loads x (json_dumps x b') = Some v2" "json_eq b' v2"
    by (auto simp add: parses_back_def split: option.splits)
  have "json_eq v1 v2"
    using json_eq_sym[OF p1(2)] bb p2(2) by (blast intro: json_eq_trans)
  with pl h p1(1) p2(1) db show ?thesis by (simp add: reply_of_def)
qed

lemma reply_eq_all:
  assumes "list_all2 (\<lambda>qr t'. json_eq (track_of x qr) t') qrs ts'"
    and "list_all (\<lambda>qr. json_answer x (Inr (snd qr))) qrs"
    and "list_all (\<lambda>t'. case getitem (stored_response t') ''body'' of
                           Inl e \<Rightarrow> False
                         | Inr b \<Rightarrow> parses_back x b) ts'"
  shows "list_all2 (reply_eq x)
           (map (\<lambda>qr. Inr (reply_of x (snd qr))) qrs)
           (map (\<lambda>p. play x (stored_response (snd p)) (fst (fst p))) (zip qrs ts'))"
  using assms
proof (induction rule: list_all2_induct)
  case Nil
  then show ?case by simp
next
  case (Cons qr qrs t' ts')
  from track_eq_response[OF Cons.hyps(1)]
  have "json_eq (track_response x (snd qr)) (stored_response t')" by simp
  with Cons.prems have "reply_eq x (Inr (reply_of x (snd qr)))
      (play x (stored_response t') (fst qr))"
    by (intro reply_eq_play) simp_all
  with Cons show ?case by simp
qed

text \<open>
  With URLs that the interception layer tells apart and one method, a request finds the
  stand-in of its own track.
\<close>

lemma find_match_separate:
  assumes "urls_separate x (map (\<lambda>p. req_url (fst (fst p))) ps)" and "p \<in> set ps"
    and "list_all (\<lambda>p. req_method (fst (fst p)) = m) ps"
  shows "find_match x (map (\<lambda>p. play_stub (fst (fst p)) (stored_response (snd p))) ps)
           (fst (fst p)) =
         Some (play_stub (fst (fst p)) (stored_response (snd p)))"
  using assms
proof (induction ps)
  case Nil
  then show ?case by simp
next
  case (Cons a ps)
  show ?case
  proof (cases "p = a")
    case True
    with Cons.prems(1) show ?thesis
      by (simp add: play_stub_match) (simp add: play_stub_def)
  next
    case False
    with Cons.prems have in_tl: "p \<in> set ps" by simp
    with Cons.prems(1)
    have "\<not> strict_url_match x (req_url (fst (fst a))) (req_url (fst (fst p)))"
      by (auto simp add: list_all_iff)
    with Cons.IH in_tl Cons.prems show ?thesis
      by (simp add: play_stub_match)
  qed
qed

lemma run_playback_exact:
  assumes "started (responses r)"
    and "stubs (responses r) =
           map (\<lambda>p. play_stub (fst (fst p)) (stored_response (snd p))) ps"
    and "urls_separate x (map (\<lambda>p. req_url (fst (fst p))) ps)"
    and "list_all (\<lambda>p. req_method (fst (fst p)) = m) ps"
    and "set ps' \<subseteq> set ps"
  shows "run x w r (map (\<lambda>p. fst (fst p)) ps') =
           (map (\<lambda>p. play x (stored_response (snd p)) (fst (fst p))) ps', w, r)"
  using assms(5)
proof (induction ps')
  case Nil
  then show ?case by simp
next
  case (Cons a ps')
  then have "a \<in> set ps" by simp
  from find_match_separate[OF assms(3) this assms(4)]
  have "dispatch x w r (fst (fst a)) = (play x (stored_response (snd a)) (fst (fst a)), w, r)"
    using assms(1,2) by (simp add: dispatch_def) (simp add: play_stub_def)
  with Cons show ?case by simp
qed

subsection \<open>The example, evaluated\<close>

lemma r0_fresh:
  "cassette r0 = JArr [] \<and> \<not> has_recorded r0 \<and>
   cass_file r0 = ''/repo/tests/cassettes/test_foo.cassette''"
  by code_simp

lemma w0_no_cassette: "\<not> has_cassette w0 r0"
  by (simp add: has_cassette_def w0_def)

lemma setup_pairs:
  "Recorder_setup x w r = (fst (Recorder_setup x w r), snd (Recorder_setup x w r))"
  by simp

lemma run_triples:
  "run x w r qs = (fst (run x w r qs), fst (snd (run x w r qs)), snd (snd (run x w r qs)))"
  by simp

lemma teardown_pairs:
  "teardown x w r = (fst (teardown x w r), snd (teardown x w r))"
  by simp

section \<open>The claims\<close>

subsection \<open>C1: the stand-in of a recording session\<close>

text \<open>
  C1, as amended. With no cassette file, setup succeeds and installs exactly one
  stand-in: for the method GET and the pattern \<open>http.*\<close>. Every GET request
  whose URL starts with \<open>http\<close> is handed to the recording callback.
\<close>

theorem recording_stub_catches_get:
  assumes "\<not> has_cassette w r"
    and "req_method q = ''GET''"
    and "prefix ''http'' (req_url q)"
  shows "fst (Recorder_setup x w r) = None \<and>
         stubs (responses (snd (Recorder_setup x w r))) = [record_stub] \<and>
         dispatch x w1 (snd (Recorder_setup x w r)) q =
           record_callback x w1 (snd (Recorder_setup x w r)) q"
proof -
  let ?r1 = "setup_recording (r\<lparr>responses := start (responses r)\<rparr>)"
  from assms(1) have s: "Recorder_setup x w r = (None, ?r1)"
    by (simp add: Recorder_setup_def Let_def)
  have st: "started (responses ?r1)"
    by (simp add: started_setup_recording mock_defs)
  have "find_match x (stubs (responses ?r1)) q = Some record_stub"
    using assms(2,3) by (simp only: stubs_setup_recording record_stub_matches) simp
  moreover have "callback record_stub = RecordCb" by (simp add: record_stub_def)
  ultimately have "dispatch x w1 ?r1 q = record_callback x w1 ?r1 q"
    using st by (simp add: dispatch_def)
  with s show ?thesis by (simp add: stubs_setup_recording)
qed

theorem recording_stub_catches_get_witness:
  "\<not> has_cassette w0 r0 \<and> req_method q_users = ''GET'' \<and> prefix ''http'' (req_url q_users) \<and>
   fst (Recorder_setup x0 w0 r0) = None \<and>
   stubs (responses (snd (Recorder_setup x0 w0 r0))) = [record_stub] \<and>
   dispatch x0 w0 (snd (Recorder_setup x0 w0 r0)) q_users =
     record_callback x0 w0 (snd (Recorder_setup x0 w0 r0)) q_users"
proof -
  have h2: "req_method q_users = ''GET''" by (simp add: q_users_def get_req_def)
  have h3: "prefix ''http'' (req_url q_users)" by (simp add: q_users_def get_req_def)
  from recording_stub_catches_get[where x = x0 and ?w1.0 = w0, OF w0_no_cassette h2 h3]
    w0_no_cassette h2 h3
  show ?thesis by simp
qed

text \<open>
  C1 as stated fails: in a recording session a POST request matches no stand-in. The
  interception layer answers it with \<open>ConnectionError\<close>, the real client is not
  called and no track is appended.
\<close>

theorem post_is_not_recorded:
  "find_match x0 (stubs (responses (snd (Recorder_setup x0 w0 r0)))) q_post = None \<and>
   fst (dispatch x0 w0 (snd (Recorder_setup x0 w0 r0)) q_post) = Inl ConnectionError \<and>
   http_calls (fst (snd (dispatch x0 w0 (snd (Recorder_setup x0 w0 r0)) q_post))) = [] \<and>
   cassette (snd (snd (dispatch x0 w0 (snd (Recorder_setup x0 w0 r0)) q_post))) = JArr []"
  by code_simp

subsection \<open>C2: recording, persisting and replaying\<close>

text \<open>
  C2, as amended. Take GET requests whose URLs start with \<open>http\<close> and are told apart
  by the interception layer (its comparison of URLs does not see the order of the query
  parameters), each answered by the real client with a response whose text is JSON. A
  first session with no cassette file records them and teardown writes the cassette; let
  \<open>json.loads\<close> give back an equal cassette for what \<open>json.dumps\<close> wrote, whatever
  the order of its dicts, and likewise an equal value for every response body, recorded
  or stored. Then a second session for the same test sets up without error and answers
  the same requests, one reply for each, with the status code the first session
  returned, equal headers, and a body string that parses to an equal value; the real
  client is not called.
\<close>

theorem record_then_replay:
  assumes nofile: "\<not> has_cassette w (Recorder_init p b n)"
    and gets: "list_all is_get qs"
    and sep: "urls_separate x (map req_url qs)"
    and ok: "list_all (json_answer x) (net_answers x (http_calls w) qs)"
    and s1: "Recorder_setup x w (Recorder_init p b n) = (e1, r1)"
    and run1: "run x w r1 qs = (outs1, w2, r2)"
    and td: "teardown x w2 r2 = (w3, r3)"
    and rt: "json_loads x (json_dumps x (cassette r2)) = Some c'"
    and eq: "json_eq (cassette r2) c'"
    and pb: "bodies_parse_back x c'"
    and s2: "Recorder_setup x w3 (Recorder_init p b n) = (e2, p1)"
    and run2: "run x w3 p1 qs = (outs2, w4, p2)"
  shows "e2 = None \<and> length outs1 = length qs \<and> list_all (\<lambda>out. \<not> isl out) outs1 \<and>
         list_all2 (reply_eq x) outs1 outs2 \<and> http_calls w4 = http_calls w3"
proof -
  let ?r0 = "Recorder_init p b n"
  let ?rs = "?r0\<lparr>responses := start (responses ?r0)\<rparr>"
  from nofile s1 have r1: "r1 = setup_recording ?rs"
    by (auto simp add: Recorder_setup_def Let_def)
  have i1: "started (responses r1)" "stubs (responses r1) = [record_stub]"
    "cassette r1 = JArr []" "\<not> has_recorded r1"
    unfolding r1
    by (simp_all add: started_setup_recording stubs_setup_recording setup_recording_fields
        mock_defs Recorder_init_def)
  from run_recording_exact[OF i1(1) i1(2) i1(3) gets ok] run1 i1(4)
  obtain resps where
    rs: "length resps = length qs"
        "list_all (\<lambda>resp. json_answer x (Inr resp)) resps"
        "outs1 = map (\<lambda>resp. Inr (reply_of x resp)) resps"
        "cassette r2 = JArr (map (track_of x) (zip qs resps))"
        "has_recorded r2 = (qs \<noteq> [])"
    by auto
  have len: "length outs1 = length qs" using rs(1,3) by simp
  have allok: "list_all (\<lambda>out. \<not> isl out) outs1" using rs(3) by (simp add: list_all_iff)
  note rf = run_frame[OF run1]
  note tf = teardown_facts[OF td]
  have cf: "cass_file r2 = cass_file ?r0"
    using rf by (intro cass_file_cong) (simp_all add: r1 setup_recording_fields)
  show ?thesis
  proof (cases "qs = []")
    case True
    with rs(5) tf rf have "files w3 = files w" by simp
    with nofile have "\<not> has_cassette w3 ?r0" by (simp add: has_cassette_def)
    with s2 have "e2 = None" by (auto simp add: Recorder_setup_def Let_def)
    moreover from True run2 run1 have "outs2 = []" "outs1 = []" "w4 = w3" by simp_all
    ultimately show ?thesis using True by simp
  next
    case False
    let ?qrs = "zip qs resps"
    let ?c = "JArr (map (track_of x) ?qrs)"
    from eq rs(4) obtain ts' where c': "c' = JArr ts'"
      and rel0: "list_all2 json_eq (map (track_of x) ?qrs) ts'"
      by (auto simp add: json_eq_JArr)
    from rel0 have rel: "list_all2 (\<lambda>qr t'. json_eq (track_of x qr) t') ?qrs ts'"
      by (simp add: list_all2_map1)
    then have lts: "length ts' = length qs" using rs(1) by (auto dest: list_all2_lengthD)
    let ?ps = "zip ?qrs ts'"
    from False rs(5) tf cf rs(4) have f3: "files w3 (cass_file ?r0) = Some (json_dumps x ?c)"
      by simp
    then have hc: "has_cassette w3 ?rs" by (simp add: has_cassette_def)
    from rt rs(4) c' have ld: "json_loads x (json_dumps x ?c) = Some (JArr ts')" by simp
    have hr: "\<not> has_recorded ?rs" by (simp add: Recorder_init_def)
    from f3 have f3': "files w3 (cass_file ?rs) = Some (json_dumps x ?c)" by simp
    have ic: "insert_cassette x w3 ?rs = (None, ?rs\<lparr>cassette := JArr ts'\<rparr>)"
      using hr f3' ld by (simp add: insert_cassette_def)
    let ?p0 = "?rs\<lparr>cassette := JArr ts', responses := reset (responses ?rs)\<rparr>"
    have "Recorder_setup x w3 ?r0 = rewind_tracks ts' ?p0"
      using hc ic by (simp add: Recorder_setup_def Let_def setup_playback_def rewind_cassette_def)
    with s2 rewind_tracks_related[OF rel, of ?p0]
    have e2: "e2 = None"
      and p1: "p1 = ?p0\<lparr>responses :=
                 (responses ?p0)\<lparr>stubs := stubs (responses ?p0) @
                    map (\<lambda>p. play_stub (fst (fst p)) (stored_response (snd p))) ?ps\<rparr>\<rparr>"
      by simp_all
    have st: "started (responses p1)"
      "stubs (responses p1) = map (\<lambda>p. play_stub (fst (fst p)) (stored_response (snd p))) ?ps"
      unfolding p1 by (simp_all add: mock_defs)
    have mq: "map fst ?ps = ?qrs" using rs(1) lts by simp
    have mf: "map (\<lambda>p. fst (fst p)) ?ps = qs"
    proof -
      have "map (\<lambda>p. fst (fst p)) ?ps = map fst (map fst ?ps)" by simp
      also have "\<dots> = map fst ?qrs" using mq by simp
      also have "\<dots> = qs" using rs(1) by simp
      finally show ?thesis .
    qed
    have d: "urls_separate x (map (\<lambda>p. req_url (fst (fst p))) ?ps)"
    proof -
      have "map (\<lambda>p. req_url (fst (fst p))) ?ps = map req_url (map (\<lambda>p. fst (fst p)) ?ps)"
        by simp
      with mf sep show ?thesis by simp
    qed
    have m: "list_all (\<lambda>p. req_method (fst (fst p)) = ''GET'') ?ps"
    proof -
      have "list_all (\<lambda>q. req_method q = ''GET'') (map (\<lambda>p. fst (fst p)) ?ps)"
        using gets mf by (simp add: list_all_iff is_get_def)
      then show ?thesis by (simp add: list_all_iff)
    qed
    from run_playback_exact[OF st d m subset_refl, of w3] mf run2
    have o2: "outs2 = map (\<lambda>p. play x (stored_response (snd p)) (fst (fst p))) ?ps"
      and w4: "w4 = w3" by simp_all
    have ja: "list_all (\<lambda>qr. json_answer x (Inr (snd qr))) ?qrs"
      using rs(2) by (auto simp add: list_all_iff dest: set_zip_rightD)
    have bp: "list_all (\<lambda>t'. case getitem (stored_response t') ''body'' of
                                Inl e \<Rightarrow> False
                              | Inr b \<Rightarrow> parses_back x b) ts'"
      using pb c' by (simp add: bodies_parse_back_def)
    have "outs1 = map (\<lambda>qr. Inr (reply_of x (snd qr))) ?qrs"
    proof -
      have "map (\<lambda>qr. Inr (reply_of x (snd qr))) ?qrs =
            map (\<lambda>resp. Inr (reply_of x resp)) (map snd ?qrs)" by simp
      also have "map snd ?qrs = resps" using rs(1) by simp
      finally have e: "map (\<lambda>qr. Inr (reply_of x (snd qr))) ?qrs =
          map (\<lambda>resp. Inr (reply_of x resp)) resps" .
      from rs(3) e[symmetric] show ?thesis by (rule trans)
    qed
    with reply_eq_all[OF rel ja bp] o2 have "list_all2 (reply_eq x) outs1 outs2" by simp
    with e2 w4 len allok show ?thesis by simp
  qed
qed

text \<open>
  An instance with the \<open>json.loads\<close> that reorders the dicts: the cassette read back
  is equal to the one written and is another list of items, and the body strings of the
  second session are not the strings of the first.
\<close>

theorem record_then_replay_witness:
  "\<not> has_cassette w0 r0 \<and>
   list_all is_get [q_users, q_items] \<and>
   urls_separate x_reorder (map req_url [q_users, q_items]) \<and>
   list_all (json_answer x_reorder) (net_answers x_reorder (http_calls w0) [q_users, q_items]) \<and>
   json_loads x_reorder
       (json_dumps x_reorder (cassette (snd (snd (first_run x_reorder [q_users, q_items]))))) =
     Some (reloaded x_reorder [q_users, q_items]) \<and>
   json_eq (cassette (snd (snd (first_run x_reorder [q_users, q_items]))))
     (reloaded x_reorder [q_users, q_items]) \<and>
   cassette (snd (snd (first_run x_reorder [q_users, q_items]))) \<noteq>
     reloaded x_reorder [q_users, q_items] \<and>
   bodies_parse_back x_reorder (reloaded x_reorder [q_users, q_items]) \<and>
   fst (Recorder_setup x_reorder (after_teardown x_reorder [q_users, q_items]) r0) = None \<and>
   length (fst (first_run x_reorder [q_users, q_items])) = length [q_users, q_items] \<and>
   list_all2 (reply_eq x_reorder) (fst (first_run x_reorder [q_users, q_items]))
     (fst (second_run x_reorder [q_users, q_items])) \<and>
   fst (second_run x_reorder [q_users, q_items]) \<noteq> fst (first_run x_reorder [q_users, q_items]) \<and>
   http_calls (fst (snd (second_run x_reorder [q_users, q_items]))) =
     http_calls (after_teardown x_reorder [q_users, q_items])"
proof -
  let ?qs = "[q_users, q_items]"
  let ?x = "x_reorder"
  have h2: "list_all is_get ?qs" by code_simp
  have h3: "urls_separate ?x (map req_url ?qs)" by code_simp
  have h4: "list_all (json_answer ?x) (net_answers ?x (http_calls w0) ?qs)" by code_simp
  have h8: "json_loads ?x (json_dumps ?x (cassette (snd (snd (first_run ?x ?qs))))) =
     Some (reloaded ?x ?qs)" by code_simp
  have h9: "json_eq (cassette (snd (snd (first_run ?x ?qs)))) (reloaded ?x ?qs)" by code_simp
  have h10: "bodies_parse_back ?x (reloaded ?x ?qs)" by code_simp
  have n1: "cassette (snd (snd (first_run ?x ?qs))) \<noteq> reloaded ?x ?qs" by code_simp
  have n2: "fst (second_run ?x ?qs) \<noteq> fst (first_run ?x ?qs)" by code_simp
  have t: "teardown ?x (fst (snd (first_run ?x ?qs))) (snd (snd (first_run ?x ?qs))) =
      (after_teardown ?x ?qs,
       snd (teardown ?x (fst (snd (first_run ?x ?qs))) (snd (snd (first_run ?x ?qs)))))"
    by (simp add: after_teardown_def)
  have r1: "run ?x w0 (snd (Recorder_setup ?x w0 r0)) ?qs =
      (fst (first_run ?x ?qs), fst (snd (first_run ?x ?qs)), snd (snd (first_run ?x ?qs)))"
    by (simp add: first_run_def)
  have r2: "run ?x (after_teardown ?x ?qs) (snd (Recorder_setup ?x (after_teardown ?x ?qs) r0)) ?qs =
      (fst (second_run ?x ?qs), fst (snd (second_run ?x ?qs)), snd (snd (second_run ?x ?qs)))"
    by (simp add: second_run_def)
  note inst = record_then_replay[where x = "?x" and w = w0 and qs = "?qs"
      and p = "\<lparr>fspath_dirpath = ''/repo/tests'', node_name = ''test_foo''\<rparr>"
      and b = None and n = None, folded r0_def,
      OF w0_no_cassette h2 h3 h4 setup_pairs r1 t h8 h9 h10 setup_pairs r2]
  from inst w0_no_cassette h2 h3 h4 h8 h9 h10 n1 n2 show ?thesis by simp
qed

text \<open>
  C2 as stated fails three times. A response whose text is not JSON is returned as it is
  while recording (\<open>hello\<close>) and as a JSON string while replaying (\<open>"hello"\<close> with
  its quotes). A POST request is not recorded: the session answers it with
  \<open>ConnectionError\<close> and writes no cassette. And two distinct URLs with the same query
  parameters in another order are one URL to the interception layer: both requests are
  recorded, and the second is replayed with the response of the first.
\<close>

theorem replay_differs_from_recording:
  \<open>fst (first_run x0 [q_motd]) =
     [Inr (JInt 200, JObj [(''Content-Type'', JStr ''text/plain'')], ''hello'')] \<and>
   fst (second_run x0 [q_motd]) =
     [Inr (JInt 200, JObj [(''Content-Type'', JStr ''text/plain'')], ''"hello"'')] \<and>
   \<not> list_all2 (reply_eq x0) (fst (first_run x0 [q_motd])) (fst (second_run x0 [q_motd])) \<and>
   fst (first_run x0 [q_post]) = [Inl ConnectionError] \<and>
   files (after_teardown x0 [q_post]) (cass_file r0) = None \<and>
   req_url q_ab \<noteq> req_url q_ba \<and>
   \<not> urls_separate x0 (map req_url [q_ab, q_ba]) \<and>
   fst (first_run x0 [q_ab, q_ba]) =
     [Inr (JInt 200, JObj [(''Content-Type'', JStr ''application/json'')], ''{"first": "a"}''),
      Inr (JInt 200, JObj [(''Content-Type'', JStr ''application/json'')], ''{"first": "b"}'')] \<and>
   fst (second_run x0 [q_ab, q_ba]) =
     [Inr (JInt 200, JObj [(''Content-Type'', JStr ''application/json'')], ''{"first": "a"}''),
      Inr (JInt 200, JObj [(''Content-Type'', JStr ''application/json'')], ''{"first": "a"}'')] \<and>
   \<not> list_all2 (reply_eq x0) (fst (first_run x0 [q_ab, q_ba])) (fst (second_run x0 [q_ab, q_ba]))\<close>
  by code_simp

subsection \<open>C3: a track, decoded for replay\<close>



subsection \<open>C4: the content-encoding header\<close>

text \<open>
  C4. When the response of the real call has a content-encoding header, looked up
  without regard to case, whose value contains \<open>gzip\<close>, the headers returned to
  the caller and the headers stored in the track are the headers of the response with
  that header deleted: no key of them is \<open>content-encoding\<close> in lower case.
\<close>

theorem gzip_header_stripped:
  assumes "send x (http_calls w) q = Inr resp"
    and "contains ''gzip'' (ci_get (resp_headers resp) ''Content-Encoding'' [])"
    and "cassette r = JArr ts"
  shows "\<exists>hs tr bodys.
           fst (record_callback x w r q) =
             Inr (JInt (resp_status_code resp), headers_dict hs, bodys) \<and>
           cassette (snd (snd (record_callback x w r q))) =
             JArr (ts @ [JObj [(''request'', track_request q), (''response'', tr)]]) \<and>
           getitem tr ''headers'' = Inr (headers_dict hs) \<and>
           hs = ci_del (resp_headers resp) ''Content-Encoding'' \<and>
           ''content-encoding'' \<notin> set (map (\<lambda>kv. lower (fst kv)) hs)"
proof -
  have s: "strip_encoding (resp_headers resp) = ci_del (resp_headers resp) ''Content-Encoding''"
    using assms(2) by (simp add: strip_encoding_def)
  have n: "''content-encoding'' \<notin>
      set (map (\<lambda>kv. lower (fst kv)) (ci_del (resp_headers resp) ''Content-Encoding''))"
    using ci_del_no_key[of "''Content-Encoding''" "resp_headers resp"]
    by (simp add: lower_content_encoding)
  have g: "getitem (track_response x resp) ''headers'' =
      Inr (headers_dict (ci_del (resp_headers resp) ''Content-Encoding''))"
    by (simp add: track_response_def s)
  show ?thesis
    unfolding record_callback_ok[OF assms(1) assms(3)]
    using s n g by (simp add: reply_of_def track_of_def)
qed

theorem gzip_header_stripped_witness:
  "send x0 (http_calls w0) q_users = Inr resp_users \<and>
   contains ''gzip'' (ci_get (resp_headers resp_users) ''Content-Encoding'' []) \<and>
   cassette r0 = JArr [] \<and>
   (\<exists>tr bodys.
      fst (record_callback x0 w0 r0 q_users) =
        Inr (JInt 200, headers_dict [(''Content-Type'', ''application/json'')], bodys) \<and>
      cassette (snd (snd (record_callback x0 w0 r0 q_users))) =
        JArr [JObj [(''request'', track_request q_users), (''response'', tr)]] \<and>
      getitem tr ''headers'' = Inr (headers_dict [(''Content-Type'', ''application/json'')]))"
proof -
  have h1: "send x0 (http_calls w0) q_users = Inr resp_users" by code_simp
  have h2: "contains ''gzip'' (ci_get (resp_headers resp_users) ''Content-Encoding'' [])"
    by code_simp
  have h3: "cassette r0 = JArr []" using r0_fresh by simp
  have e1: "resp_status_code resp_users = 200" by (simp add: resp_users_def)
  have e2: "ci_del (resp_headers resp_users) ''Content-Encoding'' =
      [(''Content-Type'', ''application/json'')]"
    by code_simp
  from gzip_header_stripped[OF h1 h2 h3]
  have "\<exists>tr bodys.
      fst (record_callback x0 w0 r0 q_users) =
        Inr (JInt 200, headers_dict [(''Content-Type'', ''application/json'')], bodys) \<and>
      cassette (snd (snd (record_callback x0 w0 r0 q_users))) =
        JArr [JObj [(''request'', track_request q_users), (''response'', tr)]] \<and>
      getitem tr ''headers'' = Inr (headers_dict [(''Content-Type'', ''application/json'')])"
    unfolding e1 e2 by auto
  with h1 h2 h3 show ?thesis by blast
qed

subsection \<open>C5: the mode of a session\<close>



subsection \<open>C6: what teardown writes\<close>

text \<open>
  C6. For a recorder as \<open>__init__\<close> makes it, after setup and the requests of the
  test: teardown leaves interception stopped and no stand-in registered, and it writes
  the cassette file, once, exactly when \<open>has_recorded\<close> is set; nothing else of the
  session writes a file. In a session set up with a cassette file \<open>has_recorded\<close> is
  never set. In a session set up with no file the cassette holds one track for each
  request that got an answer, and \<open>has_recorded\<close> is set exactly when there is one.
\<close>

theorem teardown_writes_iff_recorded:
  assumes "Recorder_setup x w (Recorder_init p b n) = (err, r1)"
    and "run x w1 r1 qs = (outs, w2, r2)"
    and "teardown x w2 r2 = (w3, r3)"
  shows "\<not> started (responses r3) \<and> stubs (responses r3) = [] \<and>
         writes w3 =
           writes w1 @ (if has_recorded r2 then [cass_file (Recorder_init p b n)] else []) \<and>
         (if has_cassette w (Recorder_init p b n) then \<not> has_recorded r2
          else \<exists>tracks. cassette r2 = JArr tracks \<and>
                 length tracks = length (filter (\<lambda>out. \<not> isl out) outs) \<and>
                 has_recorded r2 = (tracks \<noteq> []))"
proof -
  let ?r0 = "Recorder_init p b n"
  let ?rs = "?r0\<lparr>responses := start (responses ?r0)\<rparr>"
  note td = teardown_facts[OF assms(3)]
  note rf = run_frame[OF assms(2)]
  have ids: "basedir r1 = basedir ?r0 \<and> cassette_name r1 = cassette_name ?r0 \<and>
    (if has_cassette w ?r0 then \<not> has_recorded r2
     else \<exists>tracks. cassette r2 = JArr tracks \<and>
            length tracks = length (filter (\<lambda>out. \<not> isl out) outs) \<and>
            has_recorded r2 = (tracks \<noteq> []))"
  proof (cases "has_cassette w ?r0")
    case False
    with assms(1) have r1: "r1 = setup_recording ?rs"
      by (auto simp add: Recorder_setup_def Let_def)
    have "started (responses r1)" "stubs (responses r1) = [record_stub]"
      "cassette r1 = JArr []" "\<not> has_recorded r1"
      unfolding r1
      by (simp_all add: started_setup_recording stubs_setup_recording setup_recording_fields
          mock_defs Recorder_init_def)
    from run_recording[OF assms(2) this(1) this(2) this(3)] this(4) False
    show ?thesis by (simp add: r1 setup_recording_fields)
  next
    case True
    with assms(1) have sp: "setup_playback x w ?rs = (err, r1)"
      by (simp add: Recorder_setup_def Let_def)
    have "list_all is_play (stubs (responses ?rs))"
      by (simp add: mock_defs Recorder_init_def)
    from setup_playback_play[OF sp this]
    have p: "started (responses r1)" "list_all is_play (stubs (responses r1))"
      "\<not> has_recorded r1" "basedir r1 = basedir ?r0" "cassette_name r1 = cassette_name ?r0"
      by (simp_all add: mock_defs Recorder_init_def)
    from run_playback[OF p(1) p(2), of x w1 qs] assms(2) have "r2 = r1" by simp
    with p True show ?thesis by simp
  qed
  then have "cass_file r2 = cass_file ?r0"
    using rf by (intro cass_file_cong) simp_all
  with td rf ids show ?thesis by simp
qed

theorem teardown_writes_iff_recorded_witness:
  "\<not> has_cassette w0 r0 \<and>
   fst (first_run x0 [q_users, q_down]) =
     [fst (record_callback x0 w0 (snd (Recorder_setup x0 w0 r0)) q_users), Inl Timeout] \<and>
   has_recorded (snd (snd (first_run x0 [q_users, q_down]))) \<and>
   writes (after_teardown x0 [q_users, q_down]) = [cass_file r0] \<and>
   length (filter (\<lambda>out. \<not> isl out) (fst (first_run x0 [q_users, q_down]))) = 1 \<and>
   (\<exists>tracks. cassette (snd (snd (first_run x0 [q_users, q_down]))) = JArr tracks \<and>
      length tracks = 1) \<and>
   \<not> started (responses (snd (teardown x0 (fst (snd (first_run x0 [q_users, q_down])))
         (snd (snd (first_run x0 [q_users, q_down])))))) \<and>
   stubs (responses (snd (teardown x0 (fst (snd (first_run x0 [q_users, q_down])))
         (snd (snd (first_run x0 [q_users, q_down])))))) = []"
proof -
  let ?qs = "[q_users, q_down]"
  have r1: "run x0 w0 (snd (Recorder_setup x0 w0 r0)) ?qs =
      (fst (first_run x0 ?qs), fst (snd (first_run x0 ?qs)), snd (snd (first_run x0 ?qs)))"
    by (simp add: first_run_def)
  have e1: "fst (first_run x0 ?qs) =
     [fst (record_callback x0 w0 (snd (Recorder_setup x0 w0 r0)) q_users), Inl Timeout]"
    by code_simp
  have e2: "has_recorded (snd (snd (first_run x0 ?qs)))" by code_simp
  have e3: "length (filter (\<lambda>out. \<not> isl out) (fst (first_run x0 ?qs))) = 1" by code_simp
  have e4: "writes w0 = []" by (simp add: w0_def)
  note inst = teardown_writes_iff_recorded[where x = x0 and w = w0 and ?w1.0 = w0 and qs = "?qs"
      and p = "\<lparr>fspath_dirpath = ''/repo/tests'', node_name = ''test_foo''\<rparr>"
      and b = None and n = None, folded r0_def, OF setup_pairs r1 teardown_pairs,
      folded after_teardown_def]
  from inst w0_no_cassette e2 e3 e4
  have "writes (after_teardown x0 ?qs) = [cass_file r0]"
    and "\<exists>tracks. cassette (snd (snd (first_run x0 ?qs))) = JArr tracks \<and> length tracks = 1"
    and "\<not> started (responses (snd (teardown x0 (fst (snd (first_run x0 ?qs)))
         (snd (snd (first_run x0 ?qs))))))"
    and "stubs (responses (snd (teardown x0 (fst (snd (first_run x0 ?qs)))
         (snd (snd (first_run x0 ?qs)))))) = []"
    by auto
  with w0_no_cassette e1 e2 e3 show ?thesis by blast
qed

subsection \<open>C7: a real call that fails\<close>

text \<open>
  C7. When the real call raises, the callback raises the same exception, interception
  is started again, the stand-ins are the ones registered before, and the cassette and
  \<open>has_recorded\<close> are as they were.
\<close>

theorem record_failure_propagates:
  assumes "send x (http_calls w) q = Inl e"
  shows "fst (record_callback x w r q) = Inl e \<and>
         started (responses (snd (snd (record_callback x w r q)))) \<and>
         stubs (responses (snd (snd (record_callback x w r q)))) = stubs (responses r) \<and>
         cassette (snd (snd (record_callback x w r q))) = cassette r \<and>
         has_recorded (snd (snd (record_callback x w r q))) = has_recorded r"
  using assms by (simp add: record_callback_def mock_defs)

theorem record_failure_propagates_witness:
  "send x0 (http_calls w0) q_down = Inl Timeout \<and>
   fst (record_callback x0 w0 (snd (Recorder_setup x0 w0 r0)) q_down) = Inl Timeout \<and>
   started (responses (snd (snd (record_callback x0 w0 (snd (Recorder_setup x0 w0 r0)) q_down)))) \<and>
   stubs (responses (snd (snd (record_callback x0 w0 (snd (Recorder_setup x0 w0 r0)) q_down)))) =
     stubs (responses (snd (Recorder_setup x0 w0 r0))) \<and>
   cassette (snd (snd (record_callback x0 w0 (snd (Recorder_setup x0 w0 r0)) q_down))) =
     cassette (snd (Recorder_setup x0 w0 r0)) \<and>
   has_recorded (snd (snd (record_callback x0 w0 (snd (Recorder_setup x0 w0 r0)) q_down))) =
     has_recorded (snd (Recorder_setup x0 w0 r0))"
proof -
  have h: "send x0 (http_calls w0) q_down = Inl Timeout" by code_simp
  from record_failure_propagates[where r = "snd (Recorder_setup x0 w0 r0)", OF h] h
  show ?thesis by simp
qed

subsection \<open>C8: no real call while playing\<close>

text \<open>
  C8. In a session that was set up, without error, with a cassette file, every stand-in
  is a playing one, and the requests of the test, however many, leave the world and the
  recorder as they were: the real HTTP client is not called.
\<close>

theorem no_io_playback:
  assumes "has_cassette w r"
    and "Recorder_setup x w r = (None, r1)"
    and "run x w1 r1 qs = (outs, w2, r2)"
  shows "http_calls w2 = http_calls w1 \<and> list_all is_play (stubs (responses r1)) \<and> r2 = r1"
proof -
  let ?r = "r\<lparr>responses := start (responses r)\<rparr>"
  from assms(1,2) have "setup_playback x w ?r = (None, r1)"
    by (simp add: Recorder_setup_def Let_def)
  from setup_playback_ok[OF this]
  have p: "list_all is_play (stubs (responses r1))" "started (responses r1)"
    by (simp_all add: mock_defs)
  from run_playback[OF p(2) p(1), of x w1 qs] assms(3) have "w2 = w1" "r2 = r1" by simp_all
  with p show ?thesis by simp
qed

theorem no_io_playback_witness:
  "has_cassette (after_teardown x0 [q_users]) r0 \<and>
   fst (Recorder_setup x0 (after_teardown x0 [q_users]) r0) = None \<and>
   http_calls (fst (snd (run x0 (after_teardown x0 [q_users])
      (snd (Recorder_setup x0 (after_teardown x0 [q_users]) r0)) [q_users, q_post, q_down]))) =
     http_calls (after_teardown x0 [q_users]) \<and>
   list_all is_play (stubs (responses (snd (Recorder_setup x0 (after_teardown x0 [q_users]) r0))))"
proof -
  have h1: "has_cassette (after_teardown x0 [q_users]) r0" by code_simp
  have e: "fst (Recorder_setup x0 (after_teardown x0 [q_users]) r0) = None" by code_simp
  have h2: "Recorder_setup x0 (after_teardown x0 [q_users]) r0 =
      (None, snd (Recorder_setup x0 (after_teardown x0 [q_users]) r0))"
    using e by (simp add: prod_eq_iff)
  from no_io_playback[where x = x0 and ?w1.0 = "after_teardown x0 [q_users]"
      and qs = "[q_users, q_post, q_down]", OF h1 h2 run_triples] h1 e
  show ?thesis by simp
qed

subsection \<open>C9: a cassette file that is not JSON\<close>

text \<open>
  C9. For a recorder as \<open>__init__\<close> makes it: when the cassette file exists and
  \<open>json.loads\<close> rejects its content, setup raises the \<open>ValueError\<close> of the load.
  Interception has been started, no stand-in is registered, and the cassette in memory
  is still empty.
\<close>

theorem corrupt_cassette_fails_at_load:
  assumes "files w (cass_file (Recorder_init p b n)) = Some data"
    and "json_loads x data = None"
  shows "Recorder_setup x w (Recorder_init p b n) =
           (Some ValueError,
            (Recorder_init p b n)\<lparr>responses := \<lparr>started = True, stubs = []\<rparr>\<rparr>)"
  using assms
  by (simp add: Recorder_setup_def setup_playback_def insert_cassette_def has_cassette_def
      cass_file_def cass_dir_def test_name_def Recorder_init_def mock_defs)

theorem corrupt_cassette_fails_at_load_witness:
  "files w_corrupt (cass_file r0) = Some ''[{not json'' \<and>
   json_loads x0 ''[{not json'' = None \<and>
   Recorder_setup x0 w_corrupt r0 =
     (Some ValueError, r0\<lparr>responses := \<lparr>started = True, stubs = []\<rparr>\<rparr>) \<and>
   stubs (responses (snd (Recorder_setup x0 w_corrupt r0))) = [] \<and>
   cassette (snd (Recorder_setup x0 w_corrupt r0)) = JArr []"
proof -
  have h1: "files w_corrupt (cass_file r0) = Some ''[{not json''" by code_simp
  have h2: "json_loads x0 ''[{not json'' = None" by code_simp
  note inst = corrupt_cassette_fails_at_load[where x = x0 and w = w_corrupt
      and p = "\<lparr>fspath_dirpath = ''/repo/tests'', node_name = ''test_foo''\<rparr>"
      and b = None and n = None, folded r0_def, OF h1 h2]
  from inst h1 h2 r0_fresh show ?thesis by simp
qed

subsection \<open>C10: the request does not matter to \<open>play\<close>\<close>

text \<open>
  C10. The callback that \<open>play\<close> returns for a stored response gives the same result
  for any two requests: the status code, the headers and the serialised body of the
  stored response, or the same exception when a key is missing.
\<close>

theorem play_ignores_request: "play x resp q1 = play x resp q2"
  by (simp add: play_def)

end

